theory Spec2Isabelle
  imports Complex_Main
begin

section \<open>Data model\<close>

text \<open>
  The mastering chain computes on JavaScript numbers held in \<^verbatim>\<open>Float32Array\<close> channels.
  Samples, gains and levels are modelled as real numbers, so every arithmetic step is
  exact: rounding to 32 or 64 bit floating point is not part of the model.  The two
  non-finite results that the source returns on purpose (\<^verbatim>\<open>-Infinity\<close> from the
  loudness and true-peak measurements) are kept as a value of their own.  A function of
  the model returns \<open>None\<close> where the JavaScript does not return a value computed in
  finite arithmetic: it loops forever, it throws, or it divides by zero and goes on with
  \<^verbatim>\<open>Infinity\<close> or \<^verbatim>\<open>NaN\<close>; each definition says which.  The loudness measurement
  follows \<^verbatim>\<open>NaN\<close> through its blocks, so that it returns \<open>None\<close> only where its loop
  never ends.
\<close>

datatype jsnum = Num real | NegInfinity

text \<open>
  An \<^verbatim>\<open>AudioBuffer\<close> (or the worker's \<^verbatim>\<open>WorkerAudioBuffer\<close>): the sample rate, the
  number of sample frames and one array per channel.  \<^verbatim>\<open>numberOfChannels\<close> is the number
  of arrays.  The constructor allocates every channel with \<^verbatim>\<open>length\<close> zeros.
\<close>

record AudioBuffer =
  sampleRate :: real
  buf_length :: nat
  channels :: "real list list"

definition numberOfChannels :: "AudioBuffer \<Rightarrow> nat" where
  "numberOfChannels b = length (channels b)"

definition newAudioBuffer :: "nat \<Rightarrow> nat \<Rightarrow> real \<Rightarrow> AudioBuffer" where
  "newAudioBuffer nch len sr =
     \<lparr>sampleRate = sr, buf_length = len, channels = replicate nch (replicate len 0)\<rparr>"

text \<open>
  Every buffer that the constructor made keeps \<^verbatim>\<open>length\<close> samples in each channel.
\<close>

definition wf_buffer :: "AudioBuffer \<Rightarrow> bool" where
  "wf_buffer b = list_all (\<lambda>ch. length ch = buf_length b) (channels b)"

text \<open>
  \<^verbatim>\<open>for (i = 0; i < input.length; i++) output[i] = f(input[i])\<close> on a fresh
  \<^verbatim>\<open>Float32Array(len)\<close>: a write beyond the end of a typed array is dropped, and the
  cells that the loop does not reach keep their zero.
\<close>

definition writeMapped :: "nat \<Rightarrow> (real \<Rightarrow> real) \<Rightarrow> real list \<Rightarrow> real list" where
  "writeMapped len f input = take len (map f input) @ replicate (len - length input) 0"

section \<open>Constants (constants.js)\<close>

text \<open>
  \<^verbatim>\<open>K_WEIGHTING\<close>, \<^verbatim>\<open>LUFS_CONSTANTS\<close> and the two \<^verbatim>\<open>LIMITER_DEFAULTS\<close> that the
  normalizer leaves to their default, with the values of \<^verbatim>\<open>constants.js\<close>.  The absolute
  gate is the literal \<^verbatim>\<open>1e-7\<close> and the relative gate offset the literal \<^verbatim>\<open>0.1\<close>.
\<close>

definition HIGH_SHELF_FREQ :: real where "HIGH_SHELF_FREQ = 1681.97"
definition HIGH_SHELF_GAIN :: real where "HIGH_SHELF_GAIN = 4"
definition HIGH_SHELF_Q :: real where "HIGH_SHELF_Q = 0.71"
definition HIGH_PASS_FREQ :: real where "HIGH_PASS_FREQ = 38.14"
definition HIGH_PASS_Q :: real where "HIGH_PASS_Q = 0.5"

definition BLOCK_SIZE_SEC :: real where "BLOCK_SIZE_SEC = 0.4"
definition BLOCK_OVERLAP :: real where "BLOCK_OVERLAP = 0.75"
definition ABSOLUTE_GATE_LINEAR :: real where "ABSOLUTE_GATE_LINEAR = 1 / 10000000"
definition RELATIVE_GATE_OFFSET :: real where "RELATIVE_GATE_OFFSET = 0.1"
definition LOUDNESS_OFFSET :: real where "LOUDNESS_OFFSET = - 0.691"

definition KNEE_DB :: real where "KNEE_DB = 3"
definition PRESERVE_TRANSIENTS :: bool where "PRESERVE_TRANSIENTS = True"

section \<open>Utilities (utils.js)\<close>

record BiquadCoeffs =
  b0 :: real
  b1 :: real
  b2 :: real
  a1 :: real
  a2 :: real

text \<open>
  \<^verbatim>\<open>applyBiquadFilter\<close>: the loop carries the two last inputs and the two last outputs.
\<close>

fun biquadLoop :: "BiquadCoeffs \<Rightarrow> real \<Rightarrow> real \<Rightarrow> real \<Rightarrow> real \<Rightarrow> real list \<Rightarrow> real list" where
  "biquadLoop c x1 x2 y1 y2 [] = []"
| "biquadLoop c x1 x2 y1 y2 (x0 # xs) =
     (let y0 = b0 c * x0 + b1 c * x1 + b2 c * x2 - a1 c * y1 - a2 c * y2
      in y0 # biquadLoop c x0 x1 y0 y1 xs)"

definition applyBiquadFilter :: "real list \<Rightarrow> BiquadCoeffs \<Rightarrow> real list" where
  "applyBiquadFilter samples coeffs = biquadLoop coeffs 0 0 0 0 samples"

text \<open>
  The coefficient calculators divide by the sample rate, by \<open>Q\<close> and by \<open>a0\<close>.  Where one
  of them is zero the JavaScript goes on with coefficients that are not finite: the
  quotient \<open>a2\<close> (or, at sample rate zero, the cosine in \<open>a1\<close>) is \<^verbatim>\<open>Infinity\<close> or
  \<^verbatim>\<open>NaN\<close>.  The model returns \<open>None\<close> there.
\<close>

definition calcHighShelfCoeffs :: "real \<Rightarrow> real \<Rightarrow> real \<Rightarrow> real \<Rightarrow> BiquadCoeffs option" where
  "calcHighShelfCoeffs sr frequency gainDB Q =
     (if sr = 0 \<or> Q = 0 then None
      else
        (let A = 10 powr (gainDB / 40);
             w0 = 2 * pi * frequency / sr;
             cosW0 = cos w0;
             sinW0 = sin w0;
             alpha = sinW0 / (2 * Q);
             nb0 = A * ((A + 1) + (A - 1) * cosW0 + 2 * sqrt A * alpha);
             nb1 = - 2 * A * ((A - 1) + (A + 1) * cosW0);
             nb2 = A * ((A + 1) + (A - 1) * cosW0 - 2 * sqrt A * alpha);
             na0 = (A + 1) - (A - 1) * cosW0 + 2 * sqrt A * alpha;
             na1 = 2 * ((A - 1) - (A + 1) * cosW0);
             na2 = (A + 1) - (A - 1) * cosW0 - 2 * sqrt A * alpha
         in if na0 = 0 then None
            else Some \<lparr>b0 = nb0 / na0, b1 = nb1 / na0, b2 = nb2 / na0,
                        a1 = na1 / na0, a2 = na2 / na0\<rparr>))"

definition calcHighPassCoeffs :: "real \<Rightarrow> real \<Rightarrow> real \<Rightarrow> BiquadCoeffs option" where
  "calcHighPassCoeffs sr frequency Q =
     (if sr = 0 \<or> Q = 0 then None
      else
        (let w0 = 2 * pi * frequency / sr;
             cosW0 = cos w0;
             sinW0 = sin w0;
             alpha = sinW0 / (2 * Q);
             nb0 = (1 + cosW0) / 2;
             nb1 = - (1 + cosW0);
             nb2 = (1 + cosW0) / 2;
             na0 = 1 + alpha;
             na1 = - 2 * cosW0;
             na2 = 1 - alpha
         in if na0 = 0 then None
            else Some \<lparr>b0 = nb0 / na0, b1 = nb1 / na0, b2 = nb2 / na0,
                        a1 = na1 / na0, a2 = na2 / na0\<rparr>))"

definition dbToLinear :: "real \<Rightarrow> real" where
  "dbToLinear db = 10 powr (db / 20)"

definition interpolateCatmullRom :: "real \<Rightarrow> real \<Rightarrow> real \<Rightarrow> real \<Rightarrow> real \<Rightarrow> real" where
  "interpolateCatmullRom y0 y1 y2 y3 t =
     (let c0 = - 0.5 * y0 + 1.5 * y1 - 1.5 * y2 + 0.5 * y3;
          c1 = y0 - 2.5 * y1 + 2 * y2 - 0.5 * y3;
          c2 = - 0.5 * y0 + 0.5 * y2;
          c3 = y1;
          t2 = t * t;
          t3 = t2 * t
      in c0 * t3 + c1 * t2 + c2 * t + c3)"

section \<open>True-peak detection (true-peak.js)\<close>

text \<open>
  \<^verbatim>\<open>prevSamples\<close> is the four-sample history \<open>(y0, y1, y2, y3)\<close>, the newest sample last.
\<close>

type_synonym history = "real \<times> real \<times> real \<times> real"

definition calculateTruePeakSample :: "history \<Rightarrow> real" where
  "calculateTruePeakSample prevSamples =
     (case prevSamples of (y0, y1, y2, y3) \<Rightarrow>
        (let c0 = - 0.5 * y0 + 1.5 * y1 - 1.5 * y2 + 0.5 * y3;
             c1 = y0 - 2.5 * y1 + 2 * y2 - 0.5 * y3;
             c2 = - 0.5 * y0 + 0.5 * y2;
             c3 = y1
         in foldl (\<lambda>peak i.
                     (let t = real i * 0.25;
                          t2 = t * t;
                          t3 = t2 * t;
                          interpolated = c0 * t3 + c1 * t2 + c2 * t + c3
                      in max peak \<bar>interpolated\<bar>))
              \<bar>y2\<bar> [1, 2, 3]))"

text \<open>
  The loop of \<^verbatim>\<open>findTruePeak\<close> over one channel: shift the history, and from the
  fourth sample on (\<^verbatim>\<open>i >= 3\<close>) evaluate the window.
\<close>

fun truePeakLoop :: "history \<Rightarrow> nat \<Rightarrow> real \<Rightarrow> real list \<Rightarrow> real" where
  "truePeakLoop prevSamples i maxPeak [] = maxPeak"
| "truePeakLoop prevSamples i maxPeak (x # xs) =
     (case prevSamples of (p0, p1, p2, p3) \<Rightarrow>
        (let shifted = (p1, p2, p3, x);
             maxPeak' =
               (if i \<ge> 3 then
                  (let truePeak = calculateTruePeakSample shifted
                   in if truePeak > maxPeak then truePeak else maxPeak)
                else maxPeak)
         in truePeakLoop shifted (Suc i) maxPeak' xs))"

definition findTruePeak :: "AudioBuffer \<Rightarrow> jsnum" where
  "findTruePeak audioBuffer =
     (let maxPeak = foldl (\<lambda>m channelData. truePeakLoop (0, 0, 0, 0) 0 m channelData)
                      0 (channels audioBuffer)
      in if maxPeak > 0 then Num (20 * log 10 maxPeak) else NegInfinity)"

section \<open>Loudness measurement (lufs.js)\<close>

text \<open>
  \<^verbatim>\<open>duration\<close> is \<^verbatim>\<open>length / sampleRate\<close>.  At sample rate zero the quotient is
  \<^verbatim>\<open>Infinity\<close> or \<^verbatim>\<open>NaN\<close>, which is below no number; \<open>None\<close> stands for both.
\<close>

definition duration :: "AudioBuffer \<Rightarrow> real option" where
  "duration b =
     (if sampleRate b = 0 then None else Some (real (buf_length b) / sampleRate b))"

definition blockSizeOf :: "real \<Rightarrow> nat" where
  "blockSizeOf sr = nat \<lfloor>sr * BLOCK_SIZE_SEC\<rfloor>"

definition hopSizeOf :: "real \<Rightarrow> nat" where
  "hopSizeOf sr = nat \<lfloor>sr * BLOCK_SIZE_SEC * (1 - BLOCK_OVERLAP)\<rfloor>"

text \<open>
  The K-weighted channels.  With finite coefficients every channel goes through the
  high shelf and then the high pass.  With a coefficient that is not finite the result
  is \<open>None\<close>: every sample of every filtered channel is \<^verbatim>\<open>NaN\<close>, since the
  coefficient meets the zero state of the filter in the first output sample
  (\<^verbatim>\<open>Infinity * 0\<close> and \<^verbatim>\<open>NaN * 0\<close> are \<^verbatim>\<open>NaN\<close>) and \<^verbatim>\<open>NaN\<close> stays in the feedback and
  in the input of the second filter.
\<close>

definition kWeighted ::
  "BiquadCoeffs option \<Rightarrow> BiquadCoeffs option \<Rightarrow> real list list \<Rightarrow> real list list option" where
  "kWeighted highShelfCoeffs highPassCoeffs chans =
     (case (highShelfCoeffs, highPassCoeffs) of
        (Some hs, Some hp) \<Rightarrow>
          Some (map (\<lambda>ch. applyBiquadFilter (applyBiquadFilter ch hs) hp) chans)
      | _ \<Rightarrow> None)"

text \<open>
  The mean square of the block that starts at \<open>start\<close>: the squares of \<open>blockSize\<close>
  samples of every filtered channel, summed channel after channel, over
  \<^verbatim>\<open>blockSize * numChannels\<close>.  The value is a number or \<^verbatim>\<open>NaN\<close>, here \<open>None\<close>: it is
  \<^verbatim>\<open>NaN\<close> where the filtered samples are, where a channel has no sample at an index
  of the block (the read is \<^verbatim>\<open>undefined\<close>), and where the block is empty or there is no
  channel (\<^verbatim>\<open>0 / 0\<close>).
\<close>

definition blockMeanSquare :: "real list list option \<Rightarrow> nat \<Rightarrow> nat \<Rightarrow> real option" where
  "blockMeanSquare filtered blockSize start =
     (case filtered of
        None \<Rightarrow> None
      | Some filteredChannels \<Rightarrow>
          if blockSize * length filteredChannels = 0
             \<or> \<not> list_all (\<lambda>channelData. start + blockSize \<le> length channelData)
                   filteredChannels
          then None
          else Some
            (foldl (\<lambda>sumSquares channelData.
                      foldl (\<lambda>s i. s + channelData ! i * channelData ! i)
                        sumSquares [start ..< start + blockSize])
               0 filteredChannels
             / real (blockSize * length filteredChannels)))"

text \<open>
  \<^verbatim>\<open>for (start = 0; start + blockSize <= length; start += hopSize)\<close>.  With a hop of
  zero samples the loop never ends.
\<close>

partial_function (option) blocksLoop ::
  "real list list option \<Rightarrow> nat \<Rightarrow> nat \<Rightarrow> nat \<Rightarrow> nat \<Rightarrow> real option list
     \<Rightarrow> real option list option" where
  "blocksLoop filtered blockSize hopSize len start blocks =
     (if start + blockSize \<le> len then
        blocksLoop filtered blockSize hopSize len (start + hopSize)
          (blocks @ [blockMeanSquare filtered blockSize start])
      else Some blocks)"

definition mean :: "real list \<Rightarrow> real" where
  "mean xs = foldl (\<lambda>a b. a + b) 0 xs / real (length xs)"

text \<open>
  \<^verbatim>\<open>blocks.filter(ms => ms > gate)\<close>: a block that is \<^verbatim>\<open>NaN\<close> is above no gate.
\<close>

definition aboveGate :: "real \<Rightarrow> real option list \<Rightarrow> real list" where
  "aboveGate gate blocks =
     List.map_filter
       (\<lambda>ms. case ms of None \<Rightarrow> None | Some v \<Rightarrow> if v > gate then Some v else None)
       blocks"

definition gating :: "real option list \<Rightarrow> jsnum" where
  "gating blocks =
     (if length blocks = 0 then NegInfinity
      else
        (let gatedBlocks = aboveGate ABSOLUTE_GATE_LINEAR blocks
         in if length gatedBlocks = 0 then NegInfinity
            else
              (let ungatedMean = mean gatedBlocks;
                   gatedBlocks' =
                     filter (\<lambda>ms. ms > ungatedMean * RELATIVE_GATE_OFFSET) gatedBlocks
               in if length gatedBlocks' = 0 then NegInfinity
                  else
                    (let gatedMean = mean gatedBlocks'
                     in Num (LOUDNESS_OFFSET + 10 * log 10 gatedMean)))))"

text \<open>
  \<^verbatim>\<open>measureLUFS\<close>.  \<open>None\<close>: the block loop never ends.
\<close>

definition measureLUFS :: "AudioBuffer \<Rightarrow> real \<Rightarrow> jsnum option" where
  "measureLUFS audioBuffer fallbackLufs =
     (let sr = sampleRate audioBuffer;
          len = buf_length audioBuffer
      in if (case duration audioBuffer of None \<Rightarrow> False | Some d \<Rightarrow> d < BLOCK_SIZE_SEC)
         then Some (Num fallbackLufs)
         else
           (let highShelfCoeffs =
                  calcHighShelfCoeffs sr HIGH_SHELF_FREQ HIGH_SHELF_GAIN HIGH_SHELF_Q;
                highPassCoeffs = calcHighPassCoeffs sr HIGH_PASS_FREQ HIGH_PASS_Q;
                filtered = kWeighted highShelfCoeffs highPassCoeffs (channels audioBuffer)
            in Option.bind (blocksLoop filtered (blockSizeOf sr) (hopSizeOf sr) len 0 [])
                 (\<lambda>blocks. Some (gating blocks))))"

section \<open>Limiter (limiter.js)\<close>

text \<open>
  \<^verbatim>\<open>applySoftKneeCurve\<close>.  For a positive ceiling no quotient of the curve is by zero;
  the limiter below calls it with positive ceilings only.
\<close>

definition applySoftKneeCurve :: "real \<Rightarrow> real \<Rightarrow> real \<Rightarrow> real" where
  "applySoftKneeCurve sample ceiling' kneeDB =
     (let absSample = \<bar>sample\<bar>
      in if absSample \<le> ceiling' * 0.9 then sample
         else
           (let kneeRatio = 10 powr (kneeDB / 20);
                kneeStart = ceiling' / kneeRatio
            in if absSample \<le> kneeStart then sample
               else if absSample \<le> ceiling' then
                 (let t = (absSample - kneeStart) / (ceiling' - kneeStart);
                      blend = t * t * (3 - 2 * t);
                      output = absSample + (ceiling' - absSample) * blend * 0.5
                  in sgn sample * output)
               else
                 (let excess = absSample - ceiling';
                      normalized = excess / ceiling';
                      compression = 1 - tanh (normalized * 2) * 0.1;
                      output = min ceiling' (absSample * compression)
                  in sgn sample * output)))"

text \<open>
  \<^verbatim>\<open>applySoftKneeOversampled\<close>: from the fourth sample on, the largest of the three
  interpolated points between \<open>y1\<close> and \<open>y2\<close> of the shifted history decides whether the
  newest sample \<^verbatim>\<open>input[i]\<close> is scaled before the curve.
\<close>

fun softKneeLoop :: "real \<Rightarrow> real \<Rightarrow> history \<Rightarrow> nat \<Rightarrow> real list \<Rightarrow> real list" where
  "softKneeLoop ceiling' kneeDB prevSamples i [] = []"
| "softKneeLoop ceiling' kneeDB prevSamples i (x # xs) =
     (case prevSamples of (p0, p1, p2, p3) \<Rightarrow>
        (let out =
               (if i < 3 then applySoftKneeCurve x ceiling' kneeDB
                else
                  (let maxInterpolated =
                         foldl (\<lambda>m j.
                                  (let interpolated =
                                         \<bar>interpolateCatmullRom p1 p2 p3 x (real j * 0.25)\<bar>
                                   in if interpolated > m then interpolated else m))
                           0 [1, 2, 3]
                   in if maxInterpolated > ceiling' then
                        (let gainReduction = ceiling' / maxInterpolated
                         in applySoftKneeCurve (x * gainReduction) ceiling' kneeDB)
                      else applySoftKneeCurve x ceiling' kneeDB))
         in out # softKneeLoop ceiling' kneeDB (p1, p2, p3, x) (Suc i) xs))"

definition applySoftKneeOversampled :: "real list \<Rightarrow> real \<Rightarrow> real \<Rightarrow> real list" where
  "applySoftKneeOversampled input ceiling' kneeDB =
     softKneeLoop ceiling' kneeDB (0, 0, 0, 0) 0 input"

subsection \<open>Stage 0: transient map\<close>

text \<open>
  The sum of the squares (or the largest magnitude) of all channels at index \<open>i\<close>.
\<close>

definition squareSumAt :: "real list list \<Rightarrow> nat \<Rightarrow> real" where
  "squareSumAt chans i = foldl (\<lambda>s ch. s + ch ! i * ch ! i) 0 chans"

definition peakAt :: "real list list \<Rightarrow> nat \<Rightarrow> real" where
  "peakAt chans i = foldl (\<lambda>peak ch. max peak \<bar>ch ! i\<bar>) 0 chans"

text \<open>
  The running mean square over the last \<open>windowSamples\<close> samples.  With a window of zero
  samples the quotient is \<^verbatim>\<open>NaN\<close>, here \<open>None\<close>.
\<close>

fun rmsLoop :: "real list list \<Rightarrow> nat \<Rightarrow> real \<Rightarrow> nat list \<Rightarrow> real option list" where
  "rmsLoop chans windowSamples rmsSum [] = []"
| "rmsLoop chans windowSamples rmsSum (i # is) =
     (let sampleSum = squareSumAt chans i / real (length chans);
          rmsSum1 = rmsSum + sampleSum;
          rmsSum2 =
            (if i \<ge> windowSamples then
               rmsSum1 - squareSumAt chans (i - windowSamples) / real (length chans)
             else rmsSum1);
          windowSize = min (i + 1) windowSamples
      in (if windowSize = 0 then None else Some (sqrt (rmsSum2 / real windowSize)))
         # rmsLoop chans windowSamples rmsSum2 is)"

fun peakLoop :: "real list list \<Rightarrow> real \<Rightarrow> real \<Rightarrow> real \<Rightarrow> nat list \<Rightarrow> real list" where
  "peakLoop chans peakAttack peakRelease peakLevel [] = []"
| "peakLoop chans peakAttack peakRelease peakLevel (i # is) =
     (let peak = peakAt chans i;
          peakLevel' =
            (if peak > peakLevel then peakAttack * peakLevel + (1 - peakAttack) * peak
             else peakRelease * peakLevel + (1 - peakRelease) * peak)
      in peakLevel' # peakLoop chans peakAttack peakRelease peakLevel' is)"

text \<open>
  The crest factor in dB, mapped to \<open>[0, 1]\<close>.  A \<^verbatim>\<open>NaN\<close> in the RMS envelope is not above
  \<open>0.0001\<close>; the logarithm of a quotient that is not positive is \<^verbatim>\<open>-Infinity\<close> or
  \<^verbatim>\<open>NaN\<close>, and the entry is then \<open>0\<close> or \<^verbatim>\<open>NaN\<close>, which the limiter treats alike
  (neither is above \<open>0.5\<close>).
\<close>

definition transientEntry :: "real option \<Rightarrow> real \<Rightarrow> real" where
  "transientEntry rms peak =
     (case rms of
        None \<Rightarrow> 0
      | Some r \<Rightarrow>
          if r > 0.0001 then
            (if peak / r \<le> 0 then 0
             else
               (let crestFactorDB = 20 * log 10 (peak / r)
                in min 1 (max 0 ((crestFactorDB - 6) / (10 - 6)))))
          else 0)"

definition transientMapOf :: "real list list \<Rightarrow> nat \<Rightarrow> real \<Rightarrow> real list" where
  "transientMapOf chans len sr =
     (let windowSamples = nat \<lfloor>sr * 10 / 1000\<rfloor>;
          rmsEnvelope = rmsLoop chans windowSamples 0 [0 ..< len];
          peakAttack = exp (- 1 / (0.001 * sr));
          peakRelease = exp (- 1 / (0.050 * sr));
          peakEnvelope = peakLoop chans peakAttack peakRelease 0 [0 ..< len]
      in map (\<lambda>i. transientEntry (rmsEnvelope ! i) (peakEnvelope ! i)) [0 ..< len])"

subsection \<open>Stage 1: gain reduction with lookahead\<close>

text \<open>
  The gain envelope of stage 1 is a list of \<open>real option\<close>: \<open>None\<close> is \<^verbatim>\<open>NaN\<close>, which
  the ramp writes when the lookahead is zero samples long (\<^verbatim>\<open>0 / 0\<close>).  A comparison
  with \<^verbatim>\<open>NaN\<close> is false and \<^verbatim>\<open>Math.min\<close> of \<^verbatim>\<open>NaN\<close> is \<^verbatim>\<open>NaN\<close>.
\<close>

definition rampStep :: "real \<Rightarrow> int \<Rightarrow> nat \<Rightarrow> real option list \<Rightarrow> nat \<Rightarrow> real option list" where
  "rampStep requiredGain lookaheadSamples targetIndex gainEnvelope j =
     (let progress =
            (if lookaheadSamples = 0 then None
             else Some (real (j - targetIndex) / real_of_int lookaheadSamples));
          smoothedGain =
            (case (gainEnvelope ! targetIndex, progress) of
               (Some e, Some p) \<Rightarrow> Some (e + (requiredGain - e) * p)
             | _ \<Rightarrow> None)
      in gainEnvelope[j :=
           (case (gainEnvelope ! j, smoothedGain) of
              (Some a, Some s) \<Rightarrow> Some (min a s)
            | _ \<Rightarrow> None)])"

definition shift :: "history \<Rightarrow> real \<Rightarrow> history" where
  "shift prevSamples x = (case prevSamples of (p0, p1, p2, p3) \<Rightarrow> (p1, p2, p3, x))"

definition stage1Step ::
  "real list list \<Rightarrow> real \<Rightarrow> int \<Rightarrow> bool \<Rightarrow> real list
     \<Rightarrow> real option list \<times> history \<times> history \<Rightarrow> nat
     \<Rightarrow> real option list \<times> history \<times> history" where
  "stage1Step chans ceilingLinear lookaheadSamples preserveTransients transientMap st i =
     (case st of (gainEnvelope, prevSamplesL, prevSamplesR) \<Rightarrow>
        (let prevSamplesL' = shift prevSamplesL (chans ! 0 ! i);
             truePeakL = (if i \<ge> 3 then calculateTruePeakSample prevSamplesL' else 0);
             prevSamplesR' =
               (if length chans > 1 then shift prevSamplesR (chans ! 1 ! i) else prevSamplesR);
             truePeak =
               (if length chans > 1 \<and> i \<ge> 3
                then max truePeakL (calculateTruePeakSample prevSamplesR')
                else truePeakL);
             effectiveCeiling =
               (if preserveTransients \<and> transientMap ! i > 0.5
                then ceilingLinear * 10 powr (transientMap ! i * 0.5 / 20)
                else ceilingLinear);
             requiredGain =
               (if truePeak > effectiveCeiling then effectiveCeiling / truePeak else 1);
             targetIndex = nat (max 0 (int i - lookaheadSamples));
             gainEnvelope' =
               (if targetIndex < length gainEnvelope
                   \<and> (case gainEnvelope ! targetIndex of
                          Some e \<Rightarrow> requiredGain < e
                        | None \<Rightarrow> False)
                then foldl (rampStep requiredGain lookaheadSamples targetIndex)
                       gainEnvelope [targetIndex ..< Suc i]
                else gainEnvelope)
         in (gainEnvelope', prevSamplesL', prevSamplesR')))"

definition stage1 ::
  "real list list \<Rightarrow> nat \<Rightarrow> real \<Rightarrow> int \<Rightarrow> bool \<Rightarrow> real list \<Rightarrow> real option list" where
  "stage1 chans len ceilingLinear lookaheadSamples preserveTransients transientMap =
     fst (foldl (stage1Step chans ceilingLinear lookaheadSamples preserveTransients transientMap)
            (replicate len (Some 1), (0, 0, 0, 0), (0, 0, 0, 0)) [0 ..< len])"

subsection \<open>Stage 1b: release\<close>

fun releaseLoop :: "real \<Rightarrow> real \<Rightarrow> real option list \<Rightarrow> real list" where
  "releaseLoop releaseCoef currentGain [] = []"
| "releaseLoop releaseCoef currentGain (g # gs) =
     (let released = min (releaseCoef * currentGain + (1 - releaseCoef) * 1) 1;
          currentGain' =
            (case g of
               Some e \<Rightarrow> if e < currentGain then e else released
             | None \<Rightarrow> released)
      in currentGain' # releaseLoop releaseCoef currentGain' gs)"

text \<open>
  \<^verbatim>\<open>Math.exp(-1 / (releaseMs * sampleRate / 1000))\<close>; a release of zero length gives
  \<^verbatim>\<open>Math.exp(-Infinity)\<close>, which is \<open>0\<close>.
\<close>

definition releaseCoefOf :: "real \<Rightarrow> real \<Rightarrow> real" where
  "releaseCoefOf sr releaseMs =
     (if releaseMs * sr / 1000 = 0 then 0 else exp (- 1 / (releaseMs * sr / 1000)))"

text \<open>
  The gain envelope that stage 2 applies: stage 1 followed by the release smoothing.
\<close>

definition limiterGainEnvelope ::
  "AudioBuffer \<Rightarrow> real \<Rightarrow> real \<Rightarrow> real \<Rightarrow> bool \<Rightarrow> real list" where
  "limiterGainEnvelope audioBuffer ceilingLinear lookaheadMs releaseMs preserveTransients =
     (let sr = sampleRate audioBuffer;
          len = buf_length audioBuffer;
          lookaheadSamples = \<lfloor>sr * lookaheadMs / 1000\<rfloor>;
          releaseCoef = releaseCoefOf sr releaseMs;
          transientMap =
            (if preserveTransients then transientMapOf (channels audioBuffer) len sr else [])
      in releaseLoop releaseCoef 1
           (stage1 (channels audioBuffer) len ceilingLinear lookaheadSamples
              preserveTransients transientMap))"

subsection \<open>Stage 2 and the limiter\<close>

text \<open>
  \<open>None\<close>: the sample rate or the ceiling is not positive (the code then divides by
  zero or takes roots and logarithms of negative numbers), a channel does not have
  \<^verbatim>\<open>length\<close> samples, or there is no channel to read \<^verbatim>\<open>channels[0][i]\<close> from
  (a \<^verbatim>\<open>TypeError\<close>).
\<close>

definition applyLookaheadLimiter ::
  "AudioBuffer \<Rightarrow> real \<Rightarrow> real \<Rightarrow> real \<Rightarrow> real \<Rightarrow> bool \<Rightarrow> AudioBuffer option" where
  "applyLookaheadLimiter audioBuffer ceilingLinear lookaheadMs releaseMs kneeDB preserveTransients =
     (if \<not> 0 < sampleRate audioBuffer \<or> \<not> 0 < ceilingLinear \<or> \<not> wf_buffer audioBuffer
         \<or> (numberOfChannels audioBuffer = 0 \<and> 0 < buf_length audioBuffer)
      then None
      else
        (let gainEnvelope =
               limiterGainEnvelope audioBuffer ceilingLinear lookaheadMs releaseMs
                 preserveTransients;
             outputBuffer = newAudioBuffer (numberOfChannels audioBuffer)
                              (buf_length audioBuffer) (sampleRate audioBuffer)
         in Some (outputBuffer\<lparr>channels :=
              map (\<lambda>input.
                     applySoftKneeOversampled (map2 (\<lambda>x g. x * g) input gainEnvelope)
                       ceilingLinear kneeDB)
                (channels audioBuffer)\<rparr>)))"

section \<open>Stereo processing (stereo.js and the worker)\<close>

text \<open>
  What a call leaves behind besides its result: a warning on the console, a call of the
  progress callback, or a progress message posted by the worker (request id, progress,
  status).
\<close>

datatype event = Warn string | Progress real | PostProgress nat real string

record StereoProcessor =
  width :: real
  bassMono :: bool
  bassFreq :: real
  balance :: real
  midGain :: real
  sideGain :: real

text \<open>
  The highpass of the stereo module (\<^verbatim>\<open>calcHighpassCoeffs\<close>, with \<open>Q\<close> fixed to 0.7071)
  and its biquad loop \<^verbatim>\<open>applyFilter\<close>, which is the loop of \<^verbatim>\<open>applyBiquadFilter\<close>.
\<close>

definition calcHighpassCoeffs :: "real \<Rightarrow> real \<Rightarrow> BiquadCoeffs option" where
  "calcHighpassCoeffs sr frequency =
     (if sr = 0 then None
      else
        (let omega = 2 * pi * frequency / sr;
             cosw = cos omega;
             sinw = sin omega;
             alpha = sinw / (2 * 0.7071);
             nb0 = (1 + cosw) / 2;
             nb1 = - (1 + cosw);
             nb2 = (1 + cosw) / 2;
             na0 = 1 + alpha;
             na1 = - 2 * cosw;
             na2 = 1 - alpha
         in if na0 = 0 then None
            else Some \<lparr>b0 = nb0 / na0, b1 = nb1 / na0, b2 = nb2 / na0,
                        a1 = na1 / na0, a2 = na2 / na0\<rparr>))"

definition applyFilter :: "real list \<Rightarrow> BiquadCoeffs \<Rightarrow> real list" where
  "applyFilter samples coeffs = biquadLoop coeffs 0 0 0 0 samples"

text \<open>
  \<^verbatim>\<open>encodeMS\<close> and \<^verbatim>\<open>decodeMS\<close> run over the length of their first argument.  Where
  the second array is shorter, the read beyond its end is \<^verbatim>\<open>undefined\<close> and the result
  holds \<^verbatim>\<open>NaN\<close>: \<open>None\<close>.
\<close>

definition encodeMS :: "real list \<Rightarrow> real list \<Rightarrow> (real list \<times> real list) option" where
  "encodeMS left right =
     (if length left \<le> length right then
        Some (map (\<lambda>i. (left ! i + right ! i) * 0.5) [0 ..< length left],
              map (\<lambda>i. (left ! i - right ! i) * 0.5) [0 ..< length left])
      else None)"

definition decodeMS :: "real list \<Rightarrow> real list \<Rightarrow> (real list \<times> real list) option" where
  "decodeMS mid side =
     (if length mid \<le> length side then
        Some (map (\<lambda>i. mid ! i + side ! i) [0 ..< length mid],
              map (\<lambda>i. mid ! i - side ! i) [0 ..< length mid])
      else None)"

text \<open>
  \<^verbatim>\<open>StereoProcessor.process\<close>.  \<open>onProgress\<close> says whether a progress callback was
  passed.  The result is the returned buffer and the events in the order they happen;
  \<open>None\<close> where a stereo buffer has a channel that is not of the buffer's length or
  the sample rate is zero.
\<close>

definition process ::
  "StereoProcessor \<Rightarrow> AudioBuffer \<Rightarrow> bool \<Rightarrow> (AudioBuffer \<times> event list) option" where
  "process this buffer onProgress =
     (if numberOfChannels buffer \<noteq> 2 then
        Some (buffer, [Warn ''[Stereo] Input is not stereo, returning unchanged''])
      else if \<not> wf_buffer buffer then None
      else
        (let output = newAudioBuffer 2 (buf_length buffer) (sampleRate buffer);
             left = channels buffer ! 0;
             right = channels buffer ! 1;
             report = (\<lambda>p. if onProgress then [Progress p] else [])
         in Option.bind (encodeMS left right) (\<lambda>(mid, side).
            Option.bind
              (if bassMono this \<and> bassFreq this > 0 then
                 map_option (applyFilter side)
                   (calcHighpassCoeffs (sampleRate buffer) (bassFreq this))
               else Some side)
              (\<lambda>processedSide.
            (let midGainLin = dbToLinear (midGain this);
                 sideGainLin = dbToLinear (sideGain this) * width this;
                 processedMid = map (\<lambda>m. m * midGainLin) mid;
                 processedSideFinal = map (\<lambda>sd. sd * sideGainLin) processedSide
             in Option.bind (decodeMS processedMid processedSideFinal)
                  (\<lambda>(decodedLeft, decodedRight).
                (let balanceL = (if balance this < 0 then 1 else 1 - balance this);
                     balanceR = (if balance this > 0 then 1 else 1 + balance this)
                 in Some (output\<lparr>channels :=
                            [writeMapped (buf_length buffer) (\<lambda>x. x * balanceL) decodedLeft,
                             writeMapped (buf_length buffer) (\<lambda>x. x * balanceR) decodedRight]\<rparr>,
                          report 0.2 @ report 0.4 @ report 0.6 @ report 1.0))))))))"

text \<open>
  The worker's \<^verbatim>\<open>applyStereoProcessingToChannels\<close> works on the channel arrays.  Every
  option may be absent (\<^verbatim>\<open>??\<close> supplies the default), and progress is posted only when
  a request id is given.
\<close>

record StereoOptions =
  opt_width :: "real option"
  opt_bassMono :: "bool option"
  opt_bassFreq :: "real option"
  opt_balance :: "real option"
  opt_midGain :: "real option"
  opt_sideGain :: "real option"

definition orDefault :: "'a option \<Rightarrow> 'a \<Rightarrow> 'a" where
  "orDefault v d = (case v of None \<Rightarrow> d | Some x \<Rightarrow> x)"

definition applyStereoProcessingToChannels ::
  "real list list \<Rightarrow> real \<Rightarrow> nat option \<Rightarrow> StereoOptions
     \<Rightarrow> (real list list \<times> event list) option" where
  "applyStereoProcessingToChannels chans sr ident options =
     (if length chans \<noteq> 2 then
        Some (chans, [Warn ''[Worker Stereo] Not stereo, returning unchanged''])
      else
        (let report = (\<lambda>progress status.
                         case ident of None \<Rightarrow> [] | Some n \<Rightarrow> [PostProgress n progress status]);
             width = orDefault (opt_width options) 1.0;
             bassMono = orDefault (opt_bassMono options) True;
             bassFreq = orDefault (opt_bassFreq options) 200;
             balance = orDefault (opt_balance options) 0.0;
             midGain = orDefault (opt_midGain options) 0;
             sideGain = orDefault (opt_sideGain options) 0;
             left = chans ! 0;
             right = chans ! 1;
             len = length left
         in if \<not> len \<le> length right then None
            else
              (let mid = map (\<lambda>i. (left ! i + right ! i) * 0.5) [0 ..< len];
                   side = map (\<lambda>i. (left ! i - right ! i) * 0.5) [0 ..< len]
               in Option.bind
                    (if bassMono \<and> bassFreq > 0 then
                       map_option (applyFilter side) (calcHighpassCoeffs sr bassFreq)
                     else Some side)
                    (\<lambda>processedSide.
                  (let midGainLin = 10 powr (midGain / 20);
                       sideGainLin = 10 powr (sideGain / 20) * width;
                       processedMid = map (\<lambda>m. m * midGainLin) mid;
                       processedSideFinal = map (\<lambda>sd. sd * sideGainLin) processedSide;
                       outLeft = map (\<lambda>i. processedMid ! i + processedSideFinal ! i) [0 ..< len];
                       outRight = map (\<lambda>i. processedMid ! i - processedSideFinal ! i) [0 ..< len];
                       balanceL = (if balance < 0 then 1 else 1 - balance);
                       balanceR = (if balance > 0 then 1 else 1 + balance)
                   in Some ([map (\<lambda>x. x * balanceL) outLeft, map (\<lambda>x. x * balanceR) outRight],
                            report 0.2 ''M/S encoding...'' @ report 0.4 ''Bass mono filter...''
                            @ report 0.6 ''Applying width...'' @ report 1.0 ''Complete''))))))"

section \<open>Soft-knee gain computer (dynamic-processor.js)\<close>

record GainComputer =
  thresholdDb :: real
  ratio :: real
  kneeDb :: real
  kneeStart :: real
  kneeEnd :: real

definition newGainComputer :: "real \<Rightarrow> real \<Rightarrow> real \<Rightarrow> GainComputer" where
  "newGainComputer t r k =
     \<lparr>thresholdDb = t, ratio = r, kneeDb = k, kneeStart = t - k / 2, kneeEnd = t + k / 2\<rparr>"

definition computeGainDb :: "GainComputer \<Rightarrow> real \<Rightarrow> real" where
  "computeGainDb g inputDb =
     (if inputDb \<le> kneeStart g then 0
      else if inputDb \<ge> kneeEnd g then
        (let excess = inputDb - thresholdDb g;
             compressed = excess / ratio g
         in compressed - excess)
      else
        (let kneeProgress = (inputDb - kneeStart g) / kneeDb g;
             fullReduction = (inputDb - thresholdDb g) * (1 - 1 / ratio g)
         in - fullReduction * kneeProgress * kneeProgress))"

section \<open>Normalizer (normalizer.js)\<close>

text \<open>
  \<^verbatim>\<open>currentPeakDB + lufsGainDB\<close> and the comparison with the ceiling, where the peak may
  be \<^verbatim>\<open>-Infinity\<close>: the sum is then \<^verbatim>\<open>-Infinity\<close>, which is above no ceiling.
\<close>

fun js_add :: "jsnum \<Rightarrow> real \<Rightarrow> jsnum" where
  "js_add (Num x) y = Num (x + y)"
| "js_add NegInfinity y = NegInfinity"

fun js_gt :: "jsnum \<Rightarrow> real \<Rightarrow> bool" where
  "js_gt (Num x) y = (x > y)"
| "js_gt NegInfinity y = False"

text \<open>
  \<^verbatim>\<open>normalizeToLUFS\<close>.  \<open>skipLimiter\<close> is \<^verbatim>\<open>options.skipLimiter\<close>.  After limiting, the
  code measures the peak and the loudness of the limited buffer for its log line,
  with the default fallback, before it returns.
\<close>

definition normalizeToLUFS ::
  "AudioBuffer \<Rightarrow> real \<Rightarrow> real \<Rightarrow> bool \<Rightarrow> AudioBuffer option" where
  "normalizeToLUFS audioBuffer targetLUFS ceilingDB skipLimiter =
     Option.bind (measureLUFS audioBuffer targetLUFS) (\<lambda>currentLUFS.
       (let currentPeakDB = findTruePeak audioBuffer
        in case currentLUFS of
             NegInfinity \<Rightarrow> Some audioBuffer
           | Num current \<Rightarrow>
               (let lufsGainDB = targetLUFS - current;
                    gainLinear = 10 powr (lufsGainDB / 20);
                    projectedPeakDB = js_add currentPeakDB lufsGainDB;
                    ceilingLinear = 10 powr (ceilingDB / 20);
                    gainedBuffer =
                      (newAudioBuffer (numberOfChannels audioBuffer)
                         (buf_length audioBuffer) (sampleRate audioBuffer))
                      \<lparr>channels :=
                         map (writeMapped (buf_length audioBuffer) (\<lambda>x. x * gainLinear))
                           (channels audioBuffer)\<rparr>
                in if skipLimiter then Some gainedBuffer
                   else if js_gt projectedPeakDB ceilingDB then
                     Option.bind
                       (applyLookaheadLimiter gainedBuffer ceilingLinear 3 100 KNEE_DB
                          PRESERVE_TRANSIENTS)
                       (\<lambda>limitedBuffer.
                          (let finalPeakDB = findTruePeak limitedBuffer
                           in Option.bind (measureLUFS limitedBuffer (- 14))
                                (\<lambda>finalLUFS. Some limitedBuffer)))
                   else Some gainedBuffer)))"

definition applyGain :: "AudioBuffer \<Rightarrow> real \<Rightarrow> AudioBuffer" where
  "applyGain audioBuffer gainDB =
     (let gainLinear = 10 powr (gainDB / 20);
          outputBuffer = newAudioBuffer (numberOfChannels audioBuffer)
                           (buf_length audioBuffer) (sampleRate audioBuffer)
      in outputBuffer\<lparr>channels :=
           map (writeMapped (buf_length audioBuffer) (\<lambda>x. x * gainLinear))
             (channels audioBuffer)\<rparr>)"

section \<open>Example buffers\<close>

text \<open>
  400 ms of digital silence: mono at 44.1 kHz and stereo at 48 kHz.
\<close>

definition silentMono :: AudioBuffer where
  "silentMono = \<lparr>sampleRate = 44100, buf_length = 17640, channels = [replicate 17640 0]\<rparr>"

definition silentStereo :: AudioBuffer where
  "silentStereo =
     \<lparr>sampleRate = 48000, buf_length = 19200,
      channels = [replicate 19200 0, replicate 19200 0]\<rparr>"

text \<open>
  One sample short of a 400 ms block at 44.1 kHz, at half of full scale.
\<close>

definition shortBuffer :: AudioBuffer where
  "shortBuffer = \<lparr>sampleRate = 44100, buf_length = 17639, channels = [replicate 17639 (1 / 2)]\<rparr>"

text \<open>
  Four samples at nine tenths of full scale that change sign around a flat top.
\<close>

definition flatTop :: AudioBuffer where
  "flatTop = \<lparr>sampleRate = 44100, buf_length = 4, channels = [[- (9 / 10), 9 / 10, 9 / 10, - (9 / 10)]]\<rparr>"

definition flatTopLoud :: AudioBuffer where
  "flatTopLoud = \<lparr>sampleRate = 44100, buf_length = 4, channels = [[- 9, 9, 9, - 9]]\<rparr>"

text \<open>
  A full-scale click followed by silence, 400 ms at 44.1 kHz.
\<close>

definition click :: AudioBuffer where
  "click = \<lparr>sampleRate = 44100, buf_length = 17640, channels = [1 # replicate 17639 0]\<rparr>"

text \<open>
  One block of silence followed by a single sample at half of full scale.
\<close>

definition quietTail :: AudioBuffer where
  "quietTail =
     \<lparr>sampleRate = 44100, buf_length = 17641, channels = [replicate 17640 0 @ [1 / 2]]\<rparr>"

text \<open>
  Three samples at full scale, a mono buffer and three channel arrays for the worker.
\<close>

definition threeSamples :: AudioBuffer where
  "threeSamples = \<lparr>sampleRate = 44100, buf_length = 3, channels = [[1, - 1, 1]]\<rparr>"

definition monoBuffer :: AudioBuffer where
  "monoBuffer = \<lparr>sampleRate = 48000, buf_length = 2, channels = [[1 / 2, - (1 / 2)]]\<rparr>"

definition wideProcessor :: StereoProcessor where
  "wideProcessor =
     \<lparr>width = 2, bassMono = True, bassFreq = 200, balance = 1 / 4, midGain = - 3, sideGain = 3\<rparr>"

definition noOptions :: StereoOptions where
  "noOptions =
     \<lparr>opt_width = None, opt_bassMono = None, opt_bassFreq = None, opt_balance = None,
      opt_midGain = None, opt_sideGain = None\<rparr>"

section \<open>Notions used in the statements\<close>

text \<open>
  An entry of the stage 1 envelope is at most unity when it is a number at most 1;
  \<^verbatim>\<open>NaN\<close> is no gain at all (the release loop skips it).
\<close>

definition atMostUnity :: "real option \<Rightarrow> bool" where
  "atMostUnity g = (case g of Some e \<Rightarrow> e \<le> 1 | None \<Rightarrow> True)"

text \<open>
  The history that \<^verbatim>\<open>findTruePeak\<close> hands to \<^verbatim>\<open>calculateTruePeakSample\<close> at index \<open>i\<close>,
  and the update of \<^verbatim>\<open>maxPeak\<close> with its result.  The nominal point of a window is its
  third sample \<open>y2\<close>, that is sample \<open>i - 1\<close> of the channel.
\<close>

definition windowAt :: "real list \<Rightarrow> nat \<Rightarrow> history" where
  "windowAt xs i = (xs ! (i - 3), xs ! (i - 2), xs ! (i - 1), xs ! i)"

definition keepMax :: "real \<Rightarrow> real \<Rightarrow> real" where
  "keepMax maxPeak truePeak = (if truePeak > maxPeak then truePeak else maxPeak)"

definition evalWindow :: "real list \<Rightarrow> real \<Rightarrow> nat \<Rightarrow> real" where
  "evalWindow xs maxPeak i = keepMax maxPeak (calculateTruePeakSample (windowAt xs i))"

section \<open>Loudness measurement: short and silent buffers\<close>

lemma duration_below_block:
  assumes "0 < sampleRate b" "Suc (buf_length b) = blockSizeOf (sampleRate b)"
  shows "\<exists>d. duration b = Some d \<and> d < BLOCK_SIZE_SEC"
proof -
  have p: "0 \<le> \<lfloor>sampleRate b * BLOCK_SIZE_SEC\<rfloor>"
    using assms(1) by (simp add: BLOCK_SIZE_SEC_def)
  have "int (Suc (buf_length b)) = \<lfloor>sampleRate b * BLOCK_SIZE_SEC\<rfloor>"
    using assms(2) p unfolding blockSizeOf_def by simp
  then have "real_of_int (int (Suc (buf_length b))) \<le> sampleRate b * BLOCK_SIZE_SEC"
    by (metis of_int_floor_le)
  then have "real (Suc (buf_length b)) \<le> sampleRate b * BLOCK_SIZE_SEC"
    by simp
  then have "real (buf_length b) / sampleRate b < BLOCK_SIZE_SEC"
    using assms(1) by (simp add: field_simps)
  then show ?thesis using assms(1) by (simp add: duration_def)
qed

text \<open>
  C2.  A buffer whose duration is below the 400 ms block gets the caller's fallback
  as its loudness: the call returns, and what it returns is the fallback, not
  \<^verbatim>\<open>-Infinity\<close>.  A buffer of \<^verbatim>\<open>blockSize - 1\<close> samples is such a buffer.
\<close>

theorem measureLUFS_short_returns_fallback:
  "(duration b = Some d \<and> d < BLOCK_SIZE_SEC \<longrightarrow> measureLUFS b fb = Some (Num fb))
   \<and> (0 < sampleRate b \<and> Suc (buf_length b) = blockSizeOf (sampleRate b)
        \<longrightarrow> measureLUFS b fb = Some (Num fb))"
proof (intro conjI impI)
  assume "duration b = Some d \<and> d < BLOCK_SIZE_SEC"
  then show "measureLUFS b fb = Some (Num fb)"
    by (simp add: measureLUFS_def)
next
  assume "0 < sampleRate b \<and> Suc (buf_length b) = blockSizeOf (sampleRate b)"
  then obtain d' where "duration b = Some d'" "d' < BLOCK_SIZE_SEC"
    using duration_below_block by blast
  then show "measureLUFS b fb = Some (Num fb)"
    by (simp add: measureLUFS_def)
qed

lemma blockSizeOf_44100: "blockSizeOf 44100 = 17640"
  by (simp add: blockSizeOf_def BLOCK_SIZE_SEC_def)

theorem measureLUFS_short_returns_fallback_witness:
  "duration shortBuffer = Some (17639 / 44100) \<and> 17639 / 44100 < BLOCK_SIZE_SEC
   \<and> 0 < sampleRate shortBuffer
   \<and> Suc (buf_length shortBuffer) = blockSizeOf (sampleRate shortBuffer)
   \<and> measureLUFS shortBuffer (- 14) = Some (Num (- 14))"
  using measureLUFS_short_returns_fallback [of shortBuffer "17639 / 44100" "- 14"]
  by (simp add: shortBuffer_def duration_def BLOCK_SIZE_SEC_def blockSizeOf_44100)

text \<open>
  The block loop.  With a hop of at least one sample it ends; with a hop of zero samples
  it never ends once it is entered; and what holds of every block mean square holds of
  every block that it returns.
\<close>

lemma blocksLoop_returns:
  assumes "0 < hop"
  shows "\<exists>bl. blocksLoop f bs hop len start blocks = Some bl"
proof (induction "Suc len - start" arbitrary: start blocks rule: less_induct)
  case less
  show ?case
  proof (cases "start + bs \<le> len")
    case True
    have "Suc len - (start + hop) < Suc len - start"
      using True assms by arith
    then obtain bl where
      "blocksLoop f bs hop len (start + hop) (blocks @ [blockMeanSquare f bs start]) = Some bl"
      using less.hyps by blast
    then show ?thesis using True by (subst blocksLoop.simps) simp
  next
    case False
    then show ?thesis by (subst blocksLoop.simps) simp
  qed
qed

lemma blocksLoop_hop:
  assumes "blocksLoop f bs hop len start blocks = Some bl"
  shows "\<not> (hop = 0 \<and> start + bs \<le> len)"
proof (rule blocksLoop.raw_induct
    [where P = "\<lambda>f bs hop len start blocks bl. \<not> (hop = 0 \<and> start + bs \<le> len)",
     OF _ assms], goal_cases)
  case (1 g f bs hop len start blocks bl)
  show ?case
  proof (cases "start + bs \<le> len")
    case True
    then have "g f bs hop len (start + hop) (blocks @ [blockMeanSquare f bs start]) = Some bl"
      using 1(2) by simp
    from 1(1)[OF this] True show ?thesis by auto
  next
    case False
    then show ?thesis by simp
  qed
qed

lemma blocksLoop_no_hop:
  assumes "start + bs \<le> len"
  shows "blocksLoop f bs 0 len start blocks = None"
proof (cases "blocksLoop f bs 0 len start blocks")
  case None
  then show ?thesis .
next
  case (Some bl)
  then show ?thesis using blocksLoop_hop[OF Some] assms by simp
qed

lemma blocksLoop_all:
  assumes "blocksLoop f bs hop len start blocks = Some bl"
  shows "(\<forall>s. Q (blockMeanSquare f bs s)) \<longrightarrow> list_all Q blocks \<longrightarrow> list_all Q bl"
proof (rule blocksLoop.raw_induct
    [where P = "\<lambda>f bs hop len start blocks bl.
       (\<forall>s. Q (blockMeanSquare f bs s)) \<longrightarrow> list_all Q blocks \<longrightarrow> list_all Q bl",
     OF _ assms], goal_cases)
  case (1 g f bs hop len start blocks bl)
  show ?case
  proof (intro impI)
    assume a: "\<forall>s. Q (blockMeanSquare f bs s)" and b: "list_all Q blocks"
    show "list_all Q bl"
    proof (cases "start + bs \<le> len")
      case True
      then have "g f bs hop len (start + hop) (blocks @ [blockMeanSquare f bs start]) = Some bl"
        using 1(2) by simp
      from 1(1)[OF this] a b show ?thesis by simp
    next
      case False
      then show ?thesis using 1(2) b by simp
    qed
  qed
qed

lemma hopSizeOf_pos: "10 \<le> sr \<Longrightarrow> 0 < hopSizeOf sr"
proof -
  assume "10 \<le> sr"
  then have "1 \<le> sr * BLOCK_SIZE_SEC * (1 - BLOCK_OVERLAP)"
    by (simp add: BLOCK_SIZE_SEC_def BLOCK_OVERLAP_def)
  then have "1 \<le> \<lfloor>sr * BLOCK_SIZE_SEC * (1 - BLOCK_OVERLAP)\<rfloor>"
    by (simp add: le_floor_iff)
  then show ?thesis by (simp add: hopSizeOf_def)
qed

lemma hopSizeOf_zero: "sr < 10 \<Longrightarrow> hopSizeOf sr = 0"
proof -
  assume "sr < 10"
  then have "sr * BLOCK_SIZE_SEC * (1 - BLOCK_OVERLAP) < 1"
    by (simp add: BLOCK_SIZE_SEC_def BLOCK_OVERLAP_def)
  then have "\<lfloor>sr * BLOCK_SIZE_SEC * (1 - BLOCK_OVERLAP)\<rfloor> < 1"
    by (simp add: floor_less_iff)
  then show ?thesis by (simp add: hopSizeOf_def)
qed

text \<open>
  The measurement of a buffer that is not short: the gating of the blocks of the loop.
\<close>

lemma measureLUFS_long:
  assumes "\<not> (case duration b of None \<Rightarrow> False | Some d \<Rightarrow> d < BLOCK_SIZE_SEC)"
  shows "measureLUFS b fb =
     map_option gating
       (blocksLoop
          (kWeighted (calcHighShelfCoeffs (sampleRate b) HIGH_SHELF_FREQ HIGH_SHELF_GAIN HIGH_SHELF_Q)
             (calcHighPassCoeffs (sampleRate b) HIGH_PASS_FREQ HIGH_PASS_Q) (channels b))
          (blockSizeOf (sampleRate b)) (hopSizeOf (sampleRate b)) (buf_length b) 0 [])"
  using assms unfolding measureLUFS_def Let_def
  by (cases "blocksLoop
          (kWeighted (calcHighShelfCoeffs (sampleRate b) HIGH_SHELF_FREQ HIGH_SHELF_GAIN HIGH_SHELF_Q)
             (calcHighPassCoeffs (sampleRate b) HIGH_PASS_FREQ HIGH_PASS_Q) (channels b))
          (blockSizeOf (sampleRate b)) (hopSizeOf (sampleRate b)) (buf_length b) 0 []") simp_all

lemma measureLUFS_returns:
  assumes "10 \<le> sampleRate b"
  shows "\<exists>m. measureLUFS b fb = Some m"
proof (cases "case duration b of None \<Rightarrow> False | Some d \<Rightarrow> d < BLOCK_SIZE_SEC")
  case True
  then show ?thesis by (simp add: measureLUFS_def)
next
  case False
  obtain bl where "blocksLoop
          (kWeighted (calcHighShelfCoeffs (sampleRate b) HIGH_SHELF_FREQ HIGH_SHELF_GAIN HIGH_SHELF_Q)
             (calcHighPassCoeffs (sampleRate b) HIGH_PASS_FREQ HIGH_PASS_Q) (channels b))
          (blockSizeOf (sampleRate b)) (hopSizeOf (sampleRate b)) (buf_length b) 0 [] = Some bl"
    using blocksLoop_returns[OF hopSizeOf_pos[OF assms]] by blast
  then show ?thesis by (simp add: measureLUFS_long[OF False])
qed

text \<open>
  Below 10 Hz the hop is zero samples: the measurement of a buffer that is not short
  never returns.
\<close>

lemma measureLUFS_no_hop:
  assumes "sampleRate b < 10" and "duration b = Some d" and "BLOCK_SIZE_SEC \<le> d"
  shows "measureLUFS b fb = None"
proof -
  have ns: "\<not> (case duration b of None \<Rightarrow> False | Some d \<Rightarrow> d < BLOCK_SIZE_SEC)"
    using assms(2,3) by simp
  have sr: "sampleRate b \<noteq> 0" and d: "d = real (buf_length b) / sampleRate b"
    using assms(2) by (auto simp: duration_def split: if_splits)
  have pos: "0 < sampleRate b"
  proof (rule ccontr)
    assume "\<not> 0 < sampleRate b"
    then have "sampleRate b < 0" using sr by simp
    then have "real (buf_length b) / sampleRate b \<le> 0"
      by (simp add: divide_le_0_iff)
    moreover have "0 < BLOCK_SIZE_SEC" by (simp add: BLOCK_SIZE_SEC_def)
    ultimately show False using assms(3) unfolding d by linarith
  qed
  have "sampleRate b * BLOCK_SIZE_SEC \<le> real (buf_length b)"
    using assms(3) pos unfolding d by (simp add: field_simps)
  then have "\<lfloor>sampleRate b * BLOCK_SIZE_SEC\<rfloor> \<le> int (buf_length b)"
    by (simp add: floor_le_iff)
  then have "0 + blockSizeOf (sampleRate b) \<le> buf_length b"
    by (simp add: blockSizeOf_def)
  then show ?thesis
    unfolding measureLUFS_long[OF ns] hopSizeOf_zero[OF assms(1)]
    by (simp add: blocksLoop_no_hop)
qed

text \<open>
  Silence.  A filter turns zeros into zeros, a block of zeros has mean square zero (or
  is \<^verbatim>\<open>NaN\<close>), and blocks that are zero or \<^verbatim>\<open>NaN\<close> pass no gate.
\<close>

lemma biquadLoop_zero: "biquadLoop c 0 0 0 0 (replicate n 0) = replicate n 0"
  by (induction n) simp_all

lemma applyBiquadFilter_zero: "applyBiquadFilter (replicate n 0) c = replicate n 0"
  by (simp add: applyBiquadFilter_def biquadLoop_zero)

lemma length_biquadLoop: "length (biquadLoop c x1 x2 y1 y2 xs) = length xs"
  by (induction xs arbitrary: x1 x2 y1 y2) (simp_all add: Let_def)

lemma length_applyBiquadFilter: "length (applyBiquadFilter xs c) = length xs"
  by (simp add: applyBiquadFilter_def length_biquadLoop)

lemma biquadLoop_leading_zeros:
  "biquadLoop c 0 0 0 0 (replicate n 0 @ ys) = replicate n 0 @ biquadLoop c 0 0 0 0 ys"
  by (induction n) simp_all

lemma applyBiquadFilter_leading_zeros:
  "applyBiquadFilter (replicate n 0 @ ys) c = replicate n 0 @ applyBiquadFilter ys c"
  by (simp add: applyBiquadFilter_def biquadLoop_leading_zeros)

lemma gate_pos: "0 < ABSOLUTE_GATE_LINEAR"
  by (simp add: ABSOLUTE_GATE_LINEAR_def)

lemma aboveGate_silent:
  "list_all (\<lambda>ms. ms = None \<or> ms = Some 0) blocks \<Longrightarrow> aboveGate ABSOLUTE_GATE_LINEAR blocks = []"
  using gate_pos by (induction blocks) (auto simp: aboveGate_def)

lemma gating_silent:
  assumes "list_all (\<lambda>ms. ms = None \<or> ms = Some 0) blocks"
  shows "gating blocks = NegInfinity"
  by (simp add: gating_def aboveGate_silent[OF assms])

lemma foldl_zero_squares:
  "\<forall>i\<in>set is. ch ! i = (0::real) \<Longrightarrow> foldl (\<lambda>s i. s + ch ! i * ch ! i) s0 is = s0"
  by (induction "is" arbitrary: s0) simp_all

lemma foldl_channels_zero:
  assumes "\<forall>ch\<in>set fch. \<forall>i\<in>set is. ch ! i = (0::real)"
  shows "foldl (\<lambda>sumSquares channelData.
            foldl (\<lambda>s i. s + channelData ! i * channelData ! i) sumSquares is) s0 fch = s0"
  using assms by (induction fch arbitrary: s0) (simp_all add: foldl_zero_squares)

lemma blockMeanSquare_silent:
  assumes "\<forall>ch\<in>set fch. \<forall>i. start \<le> i \<longrightarrow> i < start + bs \<longrightarrow> i < length ch \<longrightarrow> ch ! i = 0"
  shows "blockMeanSquare (Some fch) bs start = None
       \<or> blockMeanSquare (Some fch) bs start = Some 0"
proof (cases "bs * length fch = 0
             \<or> \<not> list_all (\<lambda>channelData. start + bs \<le> length channelData) fch")
  case True
  then show ?thesis by (simp add: blockMeanSquare_def)
next
  case False
  then have "\<forall>ch\<in>set fch. \<forall>i\<in>set [start ..< start + bs]. ch ! i = 0"
    using assms by (auto simp: list_all_iff)
  then show ?thesis using False by (simp add: blockMeanSquare_def foldl_channels_zero)
qed

lemma kWeighted_silent:
  assumes "list_all (list_all (\<lambda>x. x = 0)) chans"
  shows "kWeighted hs hp chans = None
       \<or> (\<exists>fch. kWeighted hs hp chans = Some fch \<and> list_all (list_all (\<lambda>x. x = 0)) fch)"
proof (cases "\<exists>s p. hs = Some s \<and> hp = Some p")
  case True
  then obtain s p where sp: "hs = Some s" "hp = Some p" by blast
  have "list_all (\<lambda>x. x = 0) (applyBiquadFilter (applyBiquadFilter ch s) p)"
    if "ch \<in> set chans" for ch
  proof -
    have "\<forall>x\<in>set ch. x = 0" using assms that by (auto simp: list_all_iff)
    then have "ch = replicate (length ch) 0" by (metis replicate_eqI)
    then have "applyBiquadFilter (applyBiquadFilter ch s) p = replicate (length ch) 0"
      by (metis applyBiquadFilter_zero)
    then show ?thesis by (simp add: list_all_iff)
  qed
  then show ?thesis using sp by (simp add: kWeighted_def list_all_iff)
next
  case False
  then have "kWeighted hs hp chans = None"
    by (cases hs; cases hp) (simp_all add: kWeighted_def)
  then show ?thesis by simp
qed

lemma blocks_silent:
  assumes "list_all (list_all (\<lambda>x. x = 0)) chans"
  shows "blockMeanSquare (kWeighted hs hp chans) bs s = None
       \<or> blockMeanSquare (kWeighted hs hp chans) bs s = Some 0"
proof (cases "kWeighted hs hp chans")
  case None
  then show ?thesis by (simp add: blockMeanSquare_def)
next
  case (Some fch)
  then have "list_all (list_all (\<lambda>x. x = 0)) fch"
    using kWeighted_silent[OF assms, of hs hp] by auto
  then have "\<forall>ch\<in>set fch. \<forall>i. s \<le> i \<longrightarrow> i < s + bs \<longrightarrow> i < length ch \<longrightarrow> ch ! i = 0"
    by (auto simp: list_all_iff)
  then show ?thesis unfolding Some by (rule blockMeanSquare_silent)
qed

text \<open>
  The measurement of silence, where it returns: the fallback of a short buffer, or
  \<^verbatim>\<open>-Infinity\<close>.
\<close>

lemma measureLUFS_silent:
  assumes z: "list_all (list_all (\<lambda>x. x = 0)) (channels b)"
    and m: "measureLUFS b fb = Some r"
  shows "if (case duration b of None \<Rightarrow> False | Some d \<Rightarrow> d < BLOCK_SIZE_SEC)
         then r = Num fb else r = NegInfinity"
proof (cases "case duration b of None \<Rightarrow> False | Some d \<Rightarrow> d < BLOCK_SIZE_SEC")
  case True
  then show ?thesis using m by (simp add: measureLUFS_def)
next
  case False
  let ?f = "kWeighted (calcHighShelfCoeffs (sampleRate b) HIGH_SHELF_FREQ HIGH_SHELF_GAIN HIGH_SHELF_Q)
             (calcHighPassCoeffs (sampleRate b) HIGH_PASS_FREQ HIGH_PASS_Q) (channels b)"
  obtain bl where bl: "blocksLoop ?f (blockSizeOf (sampleRate b)) (hopSizeOf (sampleRate b))
      (buf_length b) 0 [] = Some bl" and r: "r = gating bl"
    using m unfolding measureLUFS_long[OF False] by auto
  have "list_all (\<lambda>ms. ms = None \<or> ms = Some 0) bl"
    using blocksLoop_all[OF bl, of "\<lambda>ms. ms = None \<or> ms = Some 0"] blocks_silent[OF z]
    by simp
  then show ?thesis using False r by (simp add: gating_silent)
qed

lemma measureLUFS_silence_helper:
  assumes "list_all (list_all (\<lambda>x. x = 0)) (channels b)"
    and "10 \<le> sampleRate b"
    and "duration b = Some d" and "BLOCK_SIZE_SEC \<le> d"
  shows "measureLUFS b fb = Some NegInfinity"
proof -
  obtain r where r: "measureLUFS b fb = Some r"
    using measureLUFS_returns[OF assms(2)] by blast
  then show ?thesis using measureLUFS_silent[OF assms(1) r] assms(3,4) by simp
qed

lemma measureLUFS_silentMono: "measureLUFS silentMono fb = Some NegInfinity"
  by (rule measureLUFS_silence_helper[where d = "2 / 5"])
     (simp_all add: silentMono_def duration_def BLOCK_SIZE_SEC_def list_all_iff)

text \<open>
  C1, as the code has it.  For a buffer whose samples are all zero, at a sample rate of
  at least 10 Hz and with a duration of at least one 400 ms block, the measurement
  returns, and it returns \<^verbatim>\<open>-Infinity\<close> whatever the fallback: every block has mean
  square zero (or is \<^verbatim>\<open>NaN\<close>, where the buffer has no channel) and none passes the
  absolute gate.  A silent buffer gets a number only as the fallback of a buffer that
  is shorter than one block.  (Below 10 Hz the hop is zero samples and the loop never
  ends, lemma \<open>measureLUFS_no_hop\<close>.)
\<close>

theorem measureLUFS_silence_is_NegInfinity:
  assumes "list_all (list_all (\<lambda>x. x = 0)) (channels b)"
  shows "(10 \<le> sampleRate b \<and> duration b = Some d \<and> BLOCK_SIZE_SEC \<le> d
            \<longrightarrow> measureLUFS b fb = Some NegInfinity)
       \<and> (measureLUFS b fb = Some (Num x)
            \<longrightarrow> x = fb \<and> (\<exists>d'. duration b = Some d' \<and> d' < BLOCK_SIZE_SEC))"
proof (intro conjI impI)
  assume "10 \<le> sampleRate b \<and> duration b = Some d \<and> BLOCK_SIZE_SEC \<le> d"
  then show "measureLUFS b fb = Some NegInfinity"
    using measureLUFS_silence_helper[OF assms] by blast
next
  assume m: "measureLUFS b fb = Some (Num x)"
  show "x = fb"
    using measureLUFS_silent[OF assms m] by (simp split: if_splits)
  show "\<exists>d'. duration b = Some d' \<and> d' < BLOCK_SIZE_SEC"
    using measureLUFS_silent[OF assms m] by (simp split: if_splits option.splits)
qed

text \<open>
  The theorem at 400 ms of stereo silence at 48 kHz, and at the silent buffer that is
  one sample shorter, which gets the fallback.
\<close>

theorem measureLUFS_silence_is_NegInfinity_witness:
  "list_all (list_all (\<lambda>x. x = 0)) (channels silentStereo)
   \<and> 10 \<le> sampleRate silentStereo
   \<and> duration silentStereo = Some (2 / 5) \<and> BLOCK_SIZE_SEC \<le> 2 / 5
   \<and> measureLUFS silentStereo (- 14) = Some NegInfinity
   \<and> list_all (list_all (\<lambda>x. x = 0)) (channels (newAudioBuffer 2 19199 48000))
   \<and> measureLUFS (newAudioBuffer 2 19199 48000) (- 14) = Some (Num (- 14))
   \<and> (\<exists>d'. duration (newAudioBuffer 2 19199 48000) = Some d' \<and> d' < BLOCK_SIZE_SEC)"
proof -
  have z1: "list_all (list_all (\<lambda>x. x = 0)) (channels silentStereo)"
    by (simp add: silentStereo_def list_all_iff)
  have h1: "10 \<le> sampleRate silentStereo \<and> duration silentStereo = Some (2 / 5)
      \<and> BLOCK_SIZE_SEC \<le> 2 / 5"
    by (simp add: silentStereo_def duration_def BLOCK_SIZE_SEC_def)
  have c1: "measureLUFS silentStereo (- 14) = Some NegInfinity"
    using measureLUFS_silence_is_NegInfinity [OF z1, of "2 / 5" "- 14"] h1 by blast
  have z2: "list_all (list_all (\<lambda>x. x = 0)) (channels (newAudioBuffer 2 19199 48000))"
    by (simp add: newAudioBuffer_def list_all_iff)
  have m2: "measureLUFS (newAudioBuffer 2 19199 48000) (- 14) = Some (Num (- 14))"
    by (simp add: measureLUFS_def newAudioBuffer_def duration_def BLOCK_SIZE_SEC_def)
  have c2: "\<exists>d'. duration (newAudioBuffer 2 19199 48000) = Some d' \<and> d' < BLOCK_SIZE_SEC"
    using measureLUFS_silence_is_NegInfinity [OF z2, of 0 "- 14" "- 14"] m2 by blast
  show ?thesis using z1 h1 c1 z2 m2 c2 by (intro conjI) simp_all
qed

text \<open>
  The claim as it was stated fails on 400 ms of silence at 44.1 kHz with the fallback
  \<open>-14\<close>: the result is \<^verbatim>\<open>-Infinity\<close>, not the fallback.
\<close>

theorem measureLUFS_silence_counterexample:
  "measureLUFS silentMono (- 14) = Some NegInfinity
   \<and> measureLUFS silentMono (- 14) \<noteq> Some (Num (- 14))"
  by (simp add: measureLUFS_silentMono)

section \<open>Soft knee of the gain computer\<close>

text \<open>
  The three pieces of the curve for a knee of positive width, and what they give at the
  two knee boundaries: the curve is continuous at both, its derivative at the lower
  boundary is 0 from both sides, and at the upper boundary the slope is
  \<open>- 2 * (1 - 1 / r)\<close> from the left and \<open>- (1 - 1 / r)\<close> from the right.  Inside the
  knee and below the threshold the curve is positive.
\<close>

lemma knee_piece:
  assumes "0 < k" "t - k / 2 < x" "x < t + k / 2"
  shows "computeGainDb (newGainComputer t r k) x
         = - ((x - t) * (1 - 1 / r)) * ((x - (t - k / 2)) / k) * ((x - (t - k / 2)) / k)"
  using assms by (simp add: computeGainDb_def newGainComputer_def Let_def)

lemma below_piece:
  assumes "x \<le> t - k / 2"
  shows "computeGainDb (newGainComputer t r k) x = 0"
  using assms by (simp add: computeGainDb_def newGainComputer_def)

lemma above_piece:
  assumes "0 < k" "t + k / 2 \<le> x"
  shows "computeGainDb (newGainComputer t r k) x = (x - t) / r - (x - t)"
  using assms by (simp add: computeGainDb_def newGainComputer_def Let_def)

lemma ev_below:
  "eventually (\<lambda>x. computeGainDb (newGainComputer t r k) x = 0) (at_left (t - k / 2))"
  unfolding eventually_at by (rule exI[of _ 1]) (auto simp: below_piece)

lemma ev_knee_right:
  assumes "0 < k"
  shows "eventually (\<lambda>x. computeGainDb (newGainComputer t r k) x
           = - ((x - t) * (1 - 1 / r)) * ((x - (t - k / 2)) / k) * ((x - (t - k / 2)) / k))
         (at_right (t - k / 2))"
  unfolding eventually_at
proof (intro exI[of _ k] conjI ballI impI)
  show "0 < k" by (rule assms)
  fix x assume "x \<in> {t - k / 2<..}" and "x \<noteq> t - k / 2 \<and> dist x (t - k / 2) < k"
  then have "t - k / 2 < x" "x < t + k / 2" by (auto simp: dist_real_def)
  then show "computeGainDb (newGainComputer t r k) x
           = - ((x - t) * (1 - 1 / r)) * ((x - (t - k / 2)) / k) * ((x - (t - k / 2)) / k)"
    by (rule knee_piece[OF assms])
qed

lemma ev_knee_left:
  assumes "0 < k"
  shows "eventually (\<lambda>x. computeGainDb (newGainComputer t r k) x
           = - ((x - t) * (1 - 1 / r)) * ((x - (t - k / 2)) / k) * ((x - (t - k / 2)) / k))
         (at_left (t + k / 2))"
  unfolding eventually_at
proof (intro exI[of _ k] conjI ballI impI)
  show "0 < k" by (rule assms)
  fix x assume "x \<in> {..<t + k / 2}" and "x \<noteq> t + k / 2 \<and> dist x (t + k / 2) < k"
  then have "t - k / 2 < x" "x < t + k / 2" by (auto simp: dist_real_def)
  then show "computeGainDb (newGainComputer t r k) x
           = - ((x - t) * (1 - 1 / r)) * ((x - (t - k / 2)) / k) * ((x - (t - k / 2)) / k)"
    by (rule knee_piece[OF assms])
qed

lemma ev_above:
  assumes "0 < k"
  shows "eventually (\<lambda>x. computeGainDb (newGainComputer t r k) x = (x - t) / r - (x - t))
           (at_right (t + k / 2))"
  unfolding eventually_at using assms by (intro exI[of _ 1]) (auto simp: above_piece)

lemma computeGainDb_continuous_kneeStart:
  assumes "0 < k"
  shows "isCont (computeGainDb (newGainComputer t r k)) (t - k / 2)"
proof -
  let ?f = "computeGainDb (newGainComputer t r k)"
  let ?p = "\<lambda>x. - ((x - t) * (1 - 1 / r)) * ((x - (t - k / 2)) / k) * ((x - (t - k / 2)) / k)"
  have f0: "?f (t - k / 2) = 0" by (simp add: below_piece)
  have "continuous (at_left (t - k / 2)) (\<lambda>x. 0::real)" by simp
  then have l: "continuous (at_left (t - k / 2)) ?f"
    using continuous_at_within_cong[of ?f "t - k / 2" "\<lambda>x. 0" "{..<t - k / 2}"] ev_below f0
    by simp
  have "continuous (at_right (t - k / 2)) ?p"
    using assms by (intro continuous_intros) simp_all
  moreover have "?f (t - k / 2) = ?p (t - k / 2)" using f0 by simp
  ultimately have r: "continuous (at_right (t - k / 2)) ?f"
    using continuous_at_within_cong[of ?f "t - k / 2" ?p "{t - k / 2<..}"] ev_knee_right[OF assms]
    by simp
  show ?thesis using l r by (simp add: continuous_at_split)
qed

lemma computeGainDb_continuous_kneeEnd:
  assumes "0 < k" "1 < r"
  shows "isCont (computeGainDb (newGainComputer t r k)) (t + k / 2)"
proof -
  let ?f = "computeGainDb (newGainComputer t r k)"
  let ?p = "\<lambda>x. - ((x - t) * (1 - 1 / r)) * ((x - (t - k / 2)) / k) * ((x - (t - k / 2)) / k)"
  let ?q = "\<lambda>x. (x - t) / r - (x - t)"
  have fq: "?f (t + k / 2) = ?q (t + k / 2)" using assms by (simp add: above_piece)
  have qp: "?q (t + k / 2) = ?p (t + k / 2)" using assms by (simp add: field_simps)
  have "continuous (at_left (t + k / 2)) ?p"
    using assms by (intro continuous_intros) simp_all
  then have l: "continuous (at_left (t + k / 2)) ?f"
    using continuous_at_within_cong[of ?f "t + k / 2" ?p "{..<t + k / 2}"]
      ev_knee_left[OF assms(1)] fq qp by simp
  have "continuous (at_right (t + k / 2)) ?q"
    using assms by (intro continuous_intros) simp_all
  then have r: "continuous (at_right (t + k / 2)) ?f"
    using continuous_at_within_cong[of ?f "t + k / 2" ?q "{t + k / 2<..}"]
      ev_above[OF assms(1)] fq by simp
  show ?thesis using l r by (simp add: continuous_at_split)
qed

lemma computeGainDb_smooth_kneeStart:
  assumes "0 < k"
  shows "(computeGainDb (newGainComputer t r k) has_real_derivative 0) (at (t - k / 2))"
proof -
  let ?f = "computeGainDb (newGainComputer t r k)"
  let ?p = "\<lambda>x. - ((x - t) * (1 - 1 / r)) * ((x - (t - k / 2)) / k) * ((x - (t - k / 2)) / k)"
  let ?a = "t - k / 2"
  have f0: "?f ?a = 0" by (simp add: below_piece)
  have p0: "?f ?a = ?p ?a" using f0 by simp
  have "(?f has_real_derivative 0) (at_left ?a) = ((\<lambda>x. 0) has_real_derivative 0) (at_left ?a)"
    by (rule has_field_derivative_cong_eventually[OF ev_below f0])
  then have l: "(?f has_real_derivative 0) (at_left ?a)" by simp
  have "(?p has_real_derivative 0) (at_right ?a)"
    using assms by (auto intro!: derivative_eq_intros)
  moreover have "(?f has_real_derivative 0) (at_right ?a) = (?p has_real_derivative 0) (at_right ?a)"
    by (rule has_field_derivative_cong_eventually[OF ev_knee_right[OF assms] p0])
  ultimately have r: "(?f has_real_derivative 0) (at_right ?a)" by simp
  show ?thesis
    using l r unfolding has_field_derivative_iff by (simp add: filterlim_at_split)
qed

lemma computeGainDb_slopes_kneeEnd:
  assumes "0 < k" "1 < r"
  shows "(computeGainDb (newGainComputer t r k) has_real_derivative - 2 * (1 - 1 / r))
           (at_left (t + k / 2))"
    and "(computeGainDb (newGainComputer t r k) has_real_derivative - (1 - 1 / r))
           (at_right (t + k / 2))"
proof -
  let ?f = "computeGainDb (newGainComputer t r k)"
  let ?p = "\<lambda>x. - ((x - t) * (1 - 1 / r)) * ((x - (t - k / 2)) / k) * ((x - (t - k / 2)) / k)"
  let ?q = "\<lambda>x. (x - t) / r - (x - t)"
  let ?b = "t + k / 2"
  have fq: "?f ?b = ?q ?b" using assms by (simp add: above_piece)
  have fp: "?f ?b = ?p ?b" using assms by (simp add: above_piece field_simps)
  have "(?p has_real_derivative - 2 * (1 - 1 / r)) (at_left ?b)"
    using assms by (auto intro!: derivative_eq_intros simp: field_simps)
  moreover have "(?f has_real_derivative - 2 * (1 - 1 / r)) (at_left ?b)
      = (?p has_real_derivative - 2 * (1 - 1 / r)) (at_left ?b)"
    by (rule has_field_derivative_cong_eventually[OF ev_knee_left[OF assms(1)] fp])
  ultimately show "(?f has_real_derivative - 2 * (1 - 1 / r)) (at_left ?b)" by simp
  have "(?q has_real_derivative - (1 - 1 / r)) (at_right ?b)"
    using assms by (auto intro!: derivative_eq_intros simp: field_simps)
  moreover have "(?f has_real_derivative - (1 - 1 / r)) (at_right ?b)
      = (?q has_real_derivative - (1 - 1 / r)) (at_right ?b)"
    by (rule has_field_derivative_cong_eventually[OF ev_above[OF assms(1)] fq])
  ultimately show "(?f has_real_derivative - (1 - 1 / r)) (at_right ?b)" by simp
qed

lemma computeGainDb_positive_in_knee:
  "computeGainDb (newGainComputer (- 20) 4 6) (- 21) = 1 / 12"
  by (simp add: computeGainDb_def newGainComputer_def Let_def)

text \<open>
  C3.  With the constructor's defaults (threshold -20 dB, ratio 4, knee 6 dB) the knee
  ends at -17 dB.  There the curve has slope \<open>-3/2\<close> from inside the knee and slope
  \<open>-3/4\<close> from above it: the first derivative jumps at the upper knee boundary.
\<close>

theorem computeGainDb_knee_end_slopes:
  "(computeGainDb (newGainComputer (- 20) 4 6) has_real_derivative (- 3 / 2))
     (at (- 17) within {.. - 17})
   \<and> (computeGainDb (newGainComputer (- 20) 4 6) has_real_derivative (- 3 / 4))
     (at (- 17) within {- 17 ..})"
proof
  let ?f = "computeGainDb (newGainComputer (- 20) 4 6)"
  let ?p = "\<lambda>x::real. - ((x - (- 20)) * (1 - 1 / 4)) * ((x - (- 23)) / 6) * ((x - (- 23)) / 6)"
  let ?q = "\<lambda>x::real. (x - (- 20)) / 4 - (x - (- 20))"
  have e0: "?p (- 17) = ?f (- 17)" "?q (- 17) = ?f (- 17)"
    by (simp_all add: computeGainDb_def newGainComputer_def)
  have dp: "(?p has_real_derivative (- 3 / 2)) (at (- 17) within {.. - 17})"
    by (auto intro!: derivative_eq_intros)
  have evp: "eventually (\<lambda>x. ?p x = ?f x) (at (- 17) within {.. - 17})"
    unfolding eventually_at
    by (rule exI[of _ 1]) (auto simp: computeGainDb_def newGainComputer_def dist_real_def Let_def)
  show "(?f has_real_derivative (- 3 / 2)) (at (- 17) within {.. - 17})"
    using has_field_derivative_cong_eventually[OF evp e0(1)] dp by simp
  have dq: "(?q has_real_derivative (- 3 / 4)) (at (- 17) within {- 17 ..})"
    by (auto intro!: derivative_eq_intros)
  have q: "?q x = ?f x" if "- 17 \<le> x" for x
    using that by (simp add: computeGainDb_def newGainComputer_def Let_def field_simps)
  have evq: "eventually (\<lambda>x. ?q x = ?f x) (at (- 17) within {- 17 ..})"
    unfolding eventually_at using q by (intro exI[of _ 1]) simp
  show "(?f has_real_derivative (- 3 / 4)) (at (- 17) within {- 17 ..})"
    using has_field_derivative_cong_eventually[OF evq e0(2)] dq by simp
qed

section \<open>Mid/side round trip\<close>

text \<open>
  C6.  For channels of equal length, decoding the mid/side encoding gives the left and
  the right channel back: \<open>(l + r) / 2 + (l - r) / 2 = l\<close> and
  \<open>(l + r) / 2 - (l - r) / 2 = r\<close>, exactly over the reals.
\<close>

theorem decodeMS_encodeMS:
  assumes "length L = length R"
  shows "Option.bind (encodeMS L R) (\<lambda>(mid, side). decodeMS mid side) = Some (L, R)"
proof -
  let ?mid = "map (\<lambda>i. (L ! i + R ! i) * 0.5) [0 ..< length L]"
  let ?side = "map (\<lambda>i. (L ! i - R ! i) * 0.5) [0 ..< length L]"
  have e: "encodeMS L R = Some (?mid, ?side)"
    using assms by (simp add: encodeMS_def)
  have l: "map (\<lambda>i. ?mid ! i + ?side ! i) [0 ..< length ?mid] = L"
    by (rule nth_equalityI) (simp_all add: algebra_simps)
  have r: "map (\<lambda>i. ?mid ! i - ?side ! i) [0 ..< length ?mid] = R"
    using assms by (intro nth_equalityI) (simp_all add: algebra_simps)
  have "decodeMS ?mid ?side = Some (L, R)"
    unfolding decodeMS_def using l r by simp
  then show ?thesis by (simp add: e)
qed

theorem decodeMS_encodeMS_witness:
  "length [1 / 2, - (1 / 4) :: real] = length [1 / 4, 1 :: real]
   \<and> Option.bind (encodeMS [1 / 2, - (1 / 4)] [1 / 4, 1]) (\<lambda>(mid, side). decodeMS mid side)
       = Some ([1 / 2, - (1 / 4)], [1 / 4, 1])"
  using decodeMS_encodeMS [of "[1 / 2, - (1 / 4)]" "[1 / 4, 1]"] by simp

section \<open>Gain\<close>

lemma writeMapped_twice:
  assumes "g 0 = 0"
  shows "writeMapped n g (writeMapped n f xs) = writeMapped n (\<lambda>x. g (f x)) xs"
  using assms by (auto simp: writeMapped_def take_map min_def o_def)

text \<open>
  C7.  Gain by \<open>g1\<close> dB and then by \<open>g2\<close> dB is gain by \<open>g1 + g2\<close> dB, exactly over the
  reals, since \<open>10 powr (g1 / 20) * 10 powr (g2 / 20) = 10 powr ((g1 + g2) / 20)\<close>.
\<close>

theorem applyGain_twice: "applyGain (applyGain b g1) g2 = applyGain b (g1 + g2)"
  by (simp add: applyGain_def newAudioBuffer_def numberOfChannels_def writeMapped_twice
      Let_def add_divide_distrib powr_add o_def mult.assoc)

section \<open>Gain envelope of the limiter\<close>

lemma list_all_update:
  assumes "list_all P xs" and "j < length xs \<Longrightarrow> P v"
  shows "list_all P (xs[j := v])"
  using assms by (cases "j < length xs") (auto simp: list_all_length nth_list_update)

lemma rampStep_inv:
  assumes "list_all atMostUnity env"
  shows "list_all atMostUnity (rampStep req L t env j) \<and> length (rampStep req L t env j) = length env"
proof -
  have "atMostUnity (case (env ! j, s) of (Some a, Some s) \<Rightarrow> Some (min a s) | _ \<Rightarrow> None)"
    if "j < length env" for s
  proof -
    have "atMostUnity (env ! j)" using assms that by (simp add: list_all_length)
    then show ?thesis by (auto simp: atMostUnity_def split: option.splits)
  qed
  then show ?thesis
    unfolding rampStep_def Let_def
    by (intro conjI list_all_update[OF assms]) simp_all
qed

lemma ramp_inv:
  assumes "list_all atMostUnity env"
  shows "list_all atMostUnity (foldl (rampStep req L t) env js)
     \<and> length (foldl (rampStep req L t) env js) = length env"
  using assms
proof (induction js arbitrary: env)
  case Nil
  then show ?case by simp
next
  case (Cons j js)
  then show ?case using rampStep_inv[OF Cons.prems, of req L t j] by simp
qed

lemma stage1Step_inv:
  assumes "list_all atMostUnity (fst st)"
  shows "list_all atMostUnity (fst (stage1Step chans c L pt tm st i))
     \<and> length (fst (stage1Step chans c L pt tm st i)) = length (fst st)"
proof -
  obtain env pl pr where st: "st = (env, pl, pr)" by (cases st) auto
  show ?thesis
    using assms ramp_inv[of env] unfolding st stage1Step_def Let_def by simp
qed

lemma stage1_fold_inv:
  assumes "list_all atMostUnity (fst st)"
  shows "list_all atMostUnity (fst (foldl (stage1Step chans c L pt tm) st is))
     \<and> length (fst (foldl (stage1Step chans c L pt tm) st is)) = length (fst st)"
  using assms
proof (induction "is" arbitrary: st)
  case Nil
  then show ?case by simp
next
  case (Cons i "is")
  then show ?case using stage1Step_inv[OF Cons.prems, of chans c L pt tm i] by simp
qed

lemma stage1_inv:
  "list_all atMostUnity (stage1 chans len c L pt tm) \<and> length (stage1 chans len c L pt tm) = len"
  unfolding stage1_def
  using stage1_fold_inv[of "(replicate len (Some 1), (0, 0, 0, 0), (0, 0, 0, 0))" chans c L pt tm "[0 ..< len]"]
  by (simp add: list_all_length atMostUnity_def)

lemma releaseLoop_inv:
  "cg \<le> 1 \<Longrightarrow> list_all (\<lambda>g. g \<le> 1) (releaseLoop rc cg env)
     \<and> length (releaseLoop rc cg env) = length env"
proof (induction env arbitrary: cg)
  case Nil
  then show ?case by simp
next
  case (Cons g gs)
  define cg' where
    "cg' = (case g of Some e \<Rightarrow> if e < cg then e else min (rc * cg + (1 - rc) * 1) 1
            | None \<Rightarrow> min (rc * cg + (1 - rc) * 1) 1)"
  have e: "releaseLoop rc cg (g # gs) = cg' # releaseLoop rc cg' gs"
    by (simp add: cg'_def Let_def split: option.splits)
  have le: "cg' \<le> 1"
    unfolding cg'_def using Cons.prems by (auto split: option.splits)
  show ?case unfolding e using Cons.IH[OF le] le by simp
qed

lemma length_limiterGainEnvelope:
  "length (limiterGainEnvelope b c lookaheadMs releaseMs pt) = buf_length b"
  unfolding limiterGainEnvelope_def Let_def
  using releaseLoop_inv[of 1] stage1_inv by simp

text \<open>
  C5.  The gain envelope that the limiter applies has one entry per sample and no entry
  above 1: the release loop starts at 1, takes over a scheduled reduction only where it
  is below the current gain, and caps the recovery at 1.  The envelope of stage 1 has
  no entry above 1 either: it starts at 1 and every write is a minimum with what was
  there.
\<close>

theorem gain_envelope_at_most_unity:
  "list_all (\<lambda>g. g \<le> 1) (limiterGainEnvelope b c lookaheadMs releaseMs pt)
   \<and> length (limiterGainEnvelope b c lookaheadMs releaseMs pt) = buf_length b
   \<and> list_all atMostUnity (stage1 chans len c L pt tm)"
  unfolding limiterGainEnvelope_def Let_def
  using releaseLoop_inv[of 1] stage1_inv by simp


section \<open>Stereo processing of input that is not stereo\<close>

text \<open>
  C9.  On a buffer whose channel count is not 2, \<^verbatim>\<open>StereoProcessor.process\<close> returns
  the very buffer it was given and logs one warning, whatever the processor's
  settings and whether or not a progress callback was passed; so does the worker's
  \<^verbatim>\<open>applyStereoProcessingToChannels\<close> on a channel list whose length is not 2.  Both
  return normally.
\<close>

theorem stereo_non_stereo_passthrough:
  "(numberOfChannels b \<noteq> 2 \<longrightarrow>
      process sp b onProgress
        = Some (b, [Warn ''[Stereo] Input is not stereo, returning unchanged'']))
   \<and> (length chans \<noteq> 2 \<longrightarrow>
      applyStereoProcessingToChannels chans sr ident options
        = Some (chans, [Warn ''[Worker Stereo] Not stereo, returning unchanged'']))"
  by (simp add: process_def applyStereoProcessingToChannels_def)

theorem stereo_non_stereo_passthrough_witness:
  "numberOfChannels monoBuffer \<noteq> 2
   \<and> process wideProcessor monoBuffer True
       = Some (monoBuffer, [Warn ''[Stereo] Input is not stereo, returning unchanged''])
   \<and> length [[1 / 2], [1 / 4], [0 :: real]] \<noteq> 2
   \<and> applyStereoProcessingToChannels [[1 / 2], [1 / 4], [0]] 48000 (Some 7) noOptions
       = Some ([[1 / 2], [1 / 4], [0]],
               [Warn ''[Worker Stereo] Not stereo, returning unchanged''])"
  using stereo_non_stereo_passthrough
    [of monoBuffer wideProcessor True "[[1 / 2], [1 / 4], [0]]" 48000 "Some 7" noOptions]
  by (simp add: monoBuffer_def numberOfChannels_def)

section \<open>Windows of the true-peak detector\<close>

lemma truePeakLoop_short: "i + length xs \<le> 3 \<Longrightarrow> truePeakLoop h i m xs = m"
proof (induction xs arbitrary: h i m)
  case Nil
  then show ?case by simp
next
  case (Cons x xs)
  obtain p0 p1 p2 p3 where h: "h = (p0, p1, p2, p3)" by (cases h) auto
  have "\<not> 3 \<le> i" using Cons.prems by simp
  then have "truePeakLoop h i m (x # xs) = truePeakLoop (p1, p2, p3, x) (Suc i) m xs"
    unfolding h by (simp add: Let_def)
  then show ?case using Cons.IH[of "Suc i"] Cons.prems by simp
qed

lemma truePeakLoop_step:
  "truePeakLoop (p0, p1, p2, p3) i m (x # ys) =
     truePeakLoop (p1, p2, p3, x) (Suc i)
       (if 3 \<le> i then keepMax m (calculateTruePeakSample (p1, p2, p3, x)) else m) ys"
  by (simp add: Let_def keepMax_def)

lemma truePeakLoop_windows_aux:
  assumes "i \<le> length xs" and zs: "\<And>k. k < length xs \<Longrightarrow> zs (k + 4) = xs ! k"
  shows "truePeakLoop (zs i, zs (i + 1), zs (i + 2), zs (i + 3)) i m (drop i xs)
         = foldl (\<lambda>m j. if 3 \<le> j then evalWindow xs m j else m) m [i ..< length xs]"
  using assms(1)
proof (induction "length xs - i" arbitrary: i m)
  case 0
  then show ?case by simp
next
  case (Suc k)
  then have lt: "i < length xs" by simp
  have d: "drop i xs = xs ! i # drop (Suc i) xs"
    using lt by (simp add: Cons_nth_drop_Suc)
  have u: "[i ..< length xs] = i # [Suc i ..< length xs]"
    using lt by (simp add: upt_conv_Cons)
  have w: "(zs (i + 1), zs (i + 2), zs (i + 3), xs ! i) = windowAt xs i" if "3 \<le> i"
  proof -
    have l: "i - 3 < length xs" "i - 2 < length xs" "i - 1 < length xs"
      using lt by arith+
    have e: "i + 1 = (i - 3) + 4" "i + 2 = (i - 2) + 4" "i + 3 = (i - 1) + 4"
      using that by arith+
    have "zs (i + 1) = xs ! (i - 3)"
      using zs[OF l(1)] by (simp only: e(1))
    moreover have "zs (i + 2) = xs ! (i - 2)"
      using zs[OF l(2)] by (simp only: e(2))
    moreover have "zs (i + 3) = xs ! (i - 1)"
      using zs[OF l(3)] by (simp only: e(3))
    ultimately show ?thesis by (simp only: windowAt_def)
  qed
  have k: "k = length xs - Suc i" using Suc.hyps(2) by simp
  have le: "Suc i \<le> length xs" using lt by simp
  have "Suc i + 3 = i + 4" by arith
  then have z4: "zs (Suc i + 3) = xs ! i" using zs[OF lt] by (simp only:)
  define m' where "m' = (if 3 \<le> i then evalWindow xs m i else m)"
  have m': "(if 3 \<le> i then keepMax m (calculateTruePeakSample (zs (i + 1), zs (i + 2), zs (i + 3), xs ! i)) else m) = m'"
    using w by (auto simp: m'_def evalWindow_def)
  have "truePeakLoop (zs i, zs (i + 1), zs (i + 2), zs (i + 3)) i m (drop i xs)
     = truePeakLoop (zs (i + 1), zs (i + 2), zs (i + 3), xs ! i) (Suc i) m' (drop (Suc i) xs)"
    unfolding d truePeakLoop_step m' ..
  also have "\<dots> = truePeakLoop (zs (Suc i), zs (Suc i + 1), zs (Suc i + 2), zs (Suc i + 3)) (Suc i) m' (drop (Suc i) xs)"
  proof -
    have "Suc i = i + 1" "Suc i + 1 = i + 2" "Suc i + 2 = i + 3" by arith+
    then show ?thesis using z4 by (simp only:)
  qed
  also have "\<dots> = foldl (\<lambda>m j. if 3 \<le> j then evalWindow xs m j else m) m' [Suc i ..< length xs]"
    by (rule Suc.hyps(1)[OF k le])
  also have "\<dots> = foldl (\<lambda>m j. if 3 \<le> j then evalWindow xs m j else m) m [i ..< length xs]"
    unfolding u by (simp add: m'_def)
  finally show ?case .
qed

lemma foldl_ignore: "foldl (\<lambda>m j. m) m js = m"
  by (induction js) simp_all

lemma foldl_from_3:
  "foldl (\<lambda>m j. if 3 \<le> j then f m j else m) m [0 ..< n] = foldl f m [3 ..< n]"
proof (cases "3 \<le> n")
  case True
  have a: "[0 ..< n] = [0 ..< 3] @ [3 ..< n]"
  proof -
    obtain k where k: "n = 3 + k" using True le_Suc_ex by blast
    show ?thesis unfolding k by (rule upt_add_eq_append) simp
  qed
  have b: "foldl (\<lambda>m j. if 3 \<le> j then f m j else m) m [0 ..< 3] = foldl (\<lambda>m j. m) m [0 ..< 3]"
    by (rule foldl_cong) auto
  have c: "foldl (\<lambda>m j. if 3 \<le> j then f m j else m) m [3 ..< n] = foldl f m [3 ..< n]"
    by (rule foldl_cong) auto
  show ?thesis unfolding a foldl_append b foldl_ignore c ..
next
  case False
  have "foldl (\<lambda>m j. if 3 \<le> j then f m j else m) m [0 ..< n] = foldl (\<lambda>m j. m) m [0 ..< n]"
    using False by (intro foldl_cong) auto
  then show ?thesis using False by (simp add: foldl_ignore)
qed

lemma truePeakLoop_windows:
  "truePeakLoop (0, 0, 0, 0) 0 m xs = foldl (evalWindow xs) m [3 ..< length xs]"
proof -
  define zs where "zs = (\<lambda>k. ([0, 0, 0, 0] @ xs) ! k)"
  have z: "zs (k + 4) = xs ! k" for k
    by (simp add: zs_def nth_append)
  have z0: "zs 0 = 0" "zs (0 + 1) = 0" "zs (0 + 2) = 0" "zs (0 + 3) = 0"
    by (simp_all add: zs_def eval_nat_numeral)
  have "truePeakLoop (zs 0, zs (0 + 1), zs (0 + 2), zs (0 + 3)) 0 m (drop 0 xs)
      = foldl (\<lambda>m j. if 3 \<le> j then evalWindow xs m j else m) m [0 ..< length xs]"
    by (rule truePeakLoop_windows_aux) (simp_all add: z)
  then show ?thesis unfolding z0 by (simp add: foldl_from_3)
qed

lemma short_channels_no_peak:
  assumes "list_all (\<lambda>ch. length ch < 4) chs"
  shows "foldl (\<lambda>m channelData. truePeakLoop (0, 0, 0, 0) 0 m channelData) m chs = m"
  using assms
proof (induction chs arbitrary: m)
  case Nil
  then show ?case by simp
next
  case (Cons ch chs)
  have "truePeakLoop (0, 0, 0, 0) 0 m ch = m"
    using Cons.prems by (intro truePeakLoop_short) simp
  then show ?case using Cons by simp
qed

lemma calculateTruePeakSample_nominal:
  "calculateTruePeakSample (windowAt ch i) =
     foldl (\<lambda>peak t. max peak
              \<bar>interpolateCatmullRom (ch ! (i - 3)) (ch ! (i - 2)) (ch ! (i - 1)) (ch ! i) t\<bar>)
       \<bar>ch ! (i - 1)\<bar> [1 / 4, 1 / 2, 3 / 4]"
proof -
  have quarters: "map (\<lambda>j::nat. real j * 0.25) [1, 2, 3] = [1 / 4, 1 / 2, 3 / 4]"
    by simp
  have "calculateTruePeakSample (y0, y1, y2, y3) =
      foldl (\<lambda>peak j. max peak \<bar>interpolateCatmullRom y0 y1 y2 y3 (real j * 0.25)\<bar>)
        \<bar>y2\<bar> [1, 2, 3 :: nat]" for y0 y1 y2 y3
    by (simp only: calculateTruePeakSample_def interpolateCatmullRom_def Let_def prod.case)
  also have "foldl (\<lambda>peak j. max peak \<bar>interpolateCatmullRom y0 y1 y2 y3 (real j * 0.25)\<bar>)
        \<bar>y2\<bar> [1, 2, 3 :: nat]
      = foldl (\<lambda>peak t. max peak \<bar>interpolateCatmullRom y0 y1 y2 y3 t\<bar>)
        \<bar>y2\<bar> (map (\<lambda>j::nat. real j * 0.25) [1, 2, 3])" for y0 y1 y2 y3
    by (simp only: foldl_map)
  finally show ?thesis unfolding windowAt_def quarters .
qed

text \<open>
  C10.  Where every channel has fewer than four samples, \<^verbatim>\<open>findTruePeak\<close> returns
  \<^verbatim>\<open>-Infinity\<close>, whatever the samples are.  In general the result is the largest value
  of \<^verbatim>\<open>calculateTruePeakSample\<close> over the windows \<open>(x[i-3], x[i-2], x[i-1], x[i])\<close> for
  \<open>3 \<le> i < n\<close> of every channel, and the value of a window is the largest magnitude
  among its nominal point, the third sample \<open>x[i-1]\<close>, and the three Catmull-Rom points
  between \<open>x[i-2]\<close> and \<open>x[i-1]\<close>.  So the nominal points are the samples
  \<open>x[2], ..., x[n-2]\<close>: the first two samples and the last one of a channel are never
  a nominal point.
\<close>

theorem findTruePeak_windows:
  "(list_all (\<lambda>ch. length ch < 4) (channels b) \<longrightarrow> findTruePeak b = NegInfinity)
   \<and> findTruePeak b =
       (let maxPeak = foldl (\<lambda>m ch. foldl (evalWindow ch) m [3 ..< length ch]) 0 (channels b)
        in if maxPeak > 0 then Num (20 * log 10 maxPeak) else NegInfinity)
   \<and> evalWindow xs m i =
       keepMax m
         (foldl (\<lambda>peak t. max peak
                   \<bar>interpolateCatmullRom (xs ! (i - 3)) (xs ! (i - 2)) (xs ! (i - 1)) (xs ! i) t\<bar>)
            \<bar>xs ! (i - 1)\<bar> [1 / 4, 1 / 2, 3 / 4])"
proof (intro conjI impI)
  assume "list_all (\<lambda>ch. length ch < 4) (channels b)"
  then show "findTruePeak b = NegInfinity"
    by (simp add: findTruePeak_def short_channels_no_peak)
next
  have "foldl (\<lambda>m channelData. truePeakLoop (0, 0, 0, 0) 0 m channelData) 0 (channels b)
      = foldl (\<lambda>m ch. foldl (evalWindow ch) m [3 ..< length ch]) 0 (channels b)"
    by (rule foldl_cong) (simp_all add: truePeakLoop_windows)
  then show "findTruePeak b =
       (let maxPeak = foldl (\<lambda>m ch. foldl (evalWindow ch) m [3 ..< length ch]) 0 (channels b)
        in if maxPeak > 0 then Num (20 * log 10 maxPeak) else NegInfinity)"
    by (simp add: findTruePeak_def)
next
  show "evalWindow xs m i =
       keepMax m
         (foldl (\<lambda>peak t. max peak
                   \<bar>interpolateCatmullRom (xs ! (i - 3)) (xs ! (i - 2)) (xs ! (i - 1)) (xs ! i) t\<bar>)
            \<bar>xs ! (i - 1)\<bar> [1 / 4, 1 / 2, 3 / 4])"
    unfolding evalWindow_def calculateTruePeakSample_nominal ..
qed

theorem findTruePeak_windows_witness:
  "list_all (\<lambda>ch. length ch < 4) (channels threeSamples)
   \<and> findTruePeak threeSamples = NegInfinity"
  using findTruePeak_windows [of threeSamples, THEN conjunct1]
  by (simp add: threeSamples_def)

section \<open>The limiter on a flat top\<close>

lemma upt_small:
  "[0 ..< 4] = [0, 1, 2, Suc 2]" "[0 ..< Suc 0] = [0]" "[0 ..< Suc 1] = [0, 1]"
  "[0 ..< Suc 2] = [0, 1, 2]" "[0 ..< Suc (Suc 2)] = [0, 1, 2, Suc 2]"
  by (simp_all add: upt_rec)

lemma replicate4: "replicate 4 x = [x, x, x, x]"
  by (simp add: numeral_eq_Suc)

lemma lookahead_44100: "\<lfloor>(44100::real) * 3 / 1000\<rfloor> = 132"
  by (simp add: floor_eq_iff)

lemma stage1_flatTop:
  "stage1 [[- (9 / 10), 9 / 10, 9 / 10, - (9 / 10)]] 4 1 132 False []
     = [Some 1, Some (1187 / 1188), Some (593 / 594), Some (395 / 396)]"
  unfolding stage1_def upt_small replicate4
  by (simp add: stage1Step_def shift_def calculateTruePeakSample_def rampStep_def upt_small
      Let_def eval_nat_numeral)

lemma stage1_flatTopLoud:
  "stage1 [[- 9, 9, 9, - 9]] 4 10 132 False []
     = [Some 1, Some (1187 / 1188), Some (593 / 594), Some (395 / 396)]"
  unfolding stage1_def upt_small replicate4
  by (simp add: stage1Step_def shift_def calculateTruePeakSample_def rampStep_def upt_small
      Let_def eval_nat_numeral)

lemma release_flatTop:
  "releaseLoop rc 1 [Some 1, Some (1187 / 1188), Some (593 / 594), Some (395 / 396)]
     = [1, 1187 / 1188, 593 / 594, 395 / 396]"
  by (simp add: Let_def algebra_simps)

lemma envelope_flatTop:
  "limiterGainEnvelope flatTop 1 3 100 False = [1, 1187 / 1188, 593 / 594, 395 / 396]"
  unfolding limiterGainEnvelope_def flatTop_def
  by (simp add: lookahead_44100 stage1_flatTop release_flatTop)

lemma envelope_flatTopLoud:
  "limiterGainEnvelope flatTopLoud 10 3 100 False = [1, 1187 / 1188, 593 / 594, 395 / 396]"
  unfolding limiterGainEnvelope_def flatTopLoud_def
  by (simp add: lookahead_44100 stage1_flatTopLoud release_flatTop)

lemma softKnee_flatTop:
  "applySoftKneeOversampled [- (9 / 10), 1187 / 1320, 593 / 660, - (79 / 88)] 1 3
     = [- (9 / 10), 1187 / 1320, 593 / 660, - (632 / 791)]"
  by (simp add: applySoftKneeOversampled_def applySoftKneeCurve_def interpolateCatmullRom_def
      Let_def)

lemma softKnee_flatTopLoud:
  "applySoftKneeOversampled [- 9, 1187 / 132, 593 / 66, - (395 / 44)] 10 3
     = [- 9, 1187 / 132, 593 / 66, - (6320 / 791)]"
  by (simp add: applySoftKneeOversampled_def applySoftKneeCurve_def interpolateCatmullRom_def
      Let_def)

lemma limiter_flatTop:
  "applyLookaheadLimiter flatTop 1 3 100 3 False =
     Some \<lparr>sampleRate = 44100, buf_length = 4,
           channels = [[- (9 / 10), 1187 / 1320, 593 / 660, - (632 / 791)]]\<rparr>"
  unfolding applyLookaheadLimiter_def envelope_flatTop
  by (simp add: flatTop_def wf_buffer_def numberOfChannels_def newAudioBuffer_def softKnee_flatTop)

lemma limiter_flatTopLoud:
  "applyLookaheadLimiter flatTopLoud 10 3 100 3 False =
     Some \<lparr>sampleRate = 44100, buf_length = 4,
           channels = [[- 9, 1187 / 132, 593 / 66, - (6320 / 791)]]\<rparr>"
  unfolding applyLookaheadLimiter_def envelope_flatTopLoud
  by (simp add: flatTopLoud_def wf_buffer_def numberOfChannels_def newAudioBuffer_def
      softKnee_flatTopLoud)

text \<open>
  C4.  Four samples \<open>-0.9, 0.9, 0.9, -0.9\<close> at 44.1 kHz, limited to a ceiling of 0 dB
  (linear 1) with 3 ms lookahead, 100 ms release, a 3 dB knee and no transient
  preservation: every output sample is below the ceiling, but the Catmull-Rom point
  half way between the second and the third output sample is
  \<open>1244489 / 1113728\<close>, about 1.117, far above the ceiling plus \<open>0.0001\<close>.  The same
  holds ten times larger at a ceiling of +20 dB (linear 10).  The lookahead ramp has
  reached only \<open>3 / 132\<close> of the required reduction at the peak, and the safety stage
  scales the newest sample \<open>y3\<close>, not the samples \<open>y1\<close> and \<open>y2\<close> around the peak.
\<close>

theorem limiter_intersample_overshoot:
  "applyLookaheadLimiter flatTop (dbToLinear 0) 3 100 3 False =
     Some \<lparr>sampleRate = 44100, buf_length = 4,
           channels = [[- (9 / 10), 1187 / 1320, 593 / 660, - (632 / 791)]]\<rparr>
   \<and> interpolateCatmullRom (- (9 / 10)) (1187 / 1320) (593 / 660) (- (632 / 791)) (1 / 2)
       = 1244489 / 1113728
   \<and> dbToLinear 0 + 1 / 10000 < 1244489 / 1113728
   \<and> applyLookaheadLimiter flatTopLoud (dbToLinear 20) 3 100 3 False =
     Some \<lparr>sampleRate = 44100, buf_length = 4,
           channels = [[- 9, 1187 / 132, 593 / 66, - (6320 / 791)]]\<rparr>
   \<and> interpolateCatmullRom (- 9) (1187 / 132) (593 / 66) (- (6320 / 791)) (1 / 2)
       = 6222445 / 556864
   \<and> dbToLinear 20 + 1 / 10000 < 6222445 / 556864"
proof -
  have d: "dbToLinear 0 = 1" "dbToLinear 20 = 10"
    by (simp_all add: dbToLinear_def)
  show ?thesis
    unfolding d
    by (simp add: limiter_flatTop limiter_flatTopLoud interpolateCatmullRom_def)
qed

text \<open>
  The flat top is an input that the limiter accepts: the sample rate and the ceiling
  are positive and the one channel has the buffer's length.
\<close>

theorem limiter_intersample_overshoot_witness:
  "0 < sampleRate flatTop \<and> 0 < dbToLinear 0 \<and> wf_buffer flatTop
   \<and> numberOfChannels flatTop \<noteq> 0
   \<and> applyLookaheadLimiter flatTop (dbToLinear 0) 3 100 3 False =
       Some \<lparr>sampleRate = 44100, buf_length = 4,
             channels = [[- (9 / 10), 1187 / 1320, 593 / 660, - (632 / 791)]]\<rparr>"
  using limiter_intersample_overshoot
  by (simp add: flatTop_def wf_buffer_def numberOfChannels_def dbToLinear_def)

section \<open>Sample bound of the limiter\<close>

text \<open>
  What the limiter does guarantee, for a knee width that is not negative: no output
  sample is above the ceiling in magnitude, since every output sample comes out of the
  soft-knee curve.
\<close>

lemma applySoftKneeCurve_bound:
  assumes c: "0 < c" and k: "0 \<le> k"
  shows "\<bar>applySoftKneeCurve s c k\<bar> \<le> c"
proof -
  define kneeStart where "kneeStart = c / 10 powr (k / 20)"
  have "1 \<le> 10 powr (k / 20)" using k by (simp add: ge_one_powr_ge_zero)
  then have ks: "kneeStart \<le> c" "0 < kneeStart"
    using c by (simp_all add: kneeStart_def field_simps)
  consider (fast) "\<bar>s\<bar> \<le> c * 0.9"
    | (below) "\<not> \<bar>s\<bar> \<le> c * 0.9" "\<bar>s\<bar> \<le> kneeStart"
    | (knee) "\<not> \<bar>s\<bar> \<le> c * 0.9" "\<not> \<bar>s\<bar> \<le> kneeStart" "\<bar>s\<bar> \<le> c"
    | (over) "\<not> \<bar>s\<bar> \<le> c * 0.9" "\<not> \<bar>s\<bar> \<le> kneeStart" "\<not> \<bar>s\<bar> \<le> c"
    by blast
  then show ?thesis
  proof cases
    case fast
    then have "applySoftKneeCurve s c k = s" by (simp add: applySoftKneeCurve_def)
    moreover have "c * 0.9 \<le> c" using c by simp
    ultimately show ?thesis using fast by linarith
  next
    case below
    then have "applySoftKneeCurve s c k = s"
      by (simp add: applySoftKneeCurve_def kneeStart_def Let_def)
    then show ?thesis using below ks by simp
  next
    case knee
    define t where "t = (\<bar>s\<bar> - kneeStart) / (c - kneeStart)"
    define blend where "blend = t * t * (3 - 2 * t)"
    have pos: "0 < c - kneeStart" using knee by simp
    have t: "0 \<le> t" "t \<le> 1" using knee pos by (simp_all add: t_def field_simps)
    have b0: "0 \<le> blend" unfolding blend_def using t by (intro mult_nonneg_nonneg) simp_all
    have "blend - 1 = - ((1 - t) * (1 - t) * (1 + 2 * t))"
      by (simp add: blend_def algebra_simps)
    moreover have "0 \<le> (1 - t) * (1 - t) * (1 + 2 * t)"
      using t by (intro mult_nonneg_nonneg) simp_all
    ultimately have b1: "blend \<le> 1" by linarith
    define out where "out = \<bar>s\<bar> + (c - \<bar>s\<bar>) * blend * 0.5"
    have e: "applySoftKneeCurve s c k = sgn s * out"
      using knee by (simp add: applySoftKneeCurve_def kneeStart_def Let_def out_def blend_def t_def)
    have d: "0 \<le> c - \<bar>s\<bar>" using knee by simp
    have "(c - \<bar>s\<bar>) * blend \<le> (c - \<bar>s\<bar>) * 1"
      using d b1 by (intro mult_left_mono) simp_all
    moreover have "0 \<le> (c - \<bar>s\<bar>) * blend" using d b0 by simp
    ultimately have o: "0 \<le> out" "out \<le> c" unfolding out_def by simp_all
    have "\<bar>sgn s * out\<bar> \<le> out" using o(1) by (simp add: abs_mult abs_sgn_eq)
    then show ?thesis using e o by simp
  next
    case over
    define out where
      "out = min c (\<bar>s\<bar> * (1 - tanh ((\<bar>s\<bar> - c) / c * 2) * 0.1))"
    have e: "applySoftKneeCurve s c k = sgn s * out"
      using over by (simp add: applySoftKneeCurve_def kneeStart_def Let_def out_def)
    have "tanh ((\<bar>s\<bar> - c) / c * 2) < 1" by (rule tanh_real_lt_1)
    then have "0 \<le> 1 - tanh ((\<bar>s\<bar> - c) / c * 2) * 0.1" by simp
    then have "0 \<le> \<bar>s\<bar> * (1 - tanh ((\<bar>s\<bar> - c) / c * 2) * 0.1)" by simp
    then have o: "0 \<le> out" "out \<le> c" using c by (simp_all add: out_def)
    have "\<bar>sgn s * out\<bar> \<le> out" using o(1) by (simp add: abs_mult abs_sgn_eq)
    then show ?thesis using e o by simp
  qed
qed

lemma softKneeLoop_Cons:
  "\<exists>z. softKneeLoop c k (p0, p1, p2, p3) i (x # xs)
        = applySoftKneeCurve z c k # softKneeLoop c k (p1, p2, p3, x) (Suc i) xs"
proof -
  define M where
    "M = foldl (\<lambda>m j.
                  (let interpolated = \<bar>interpolateCatmullRom p1 p2 p3 x (real j * 0.25)\<bar>
                   in if interpolated > m then interpolated else m))
           0 [1, 2, 3 :: nat]"
  have e: "softKneeLoop c k (p0, p1, p2, p3) i (x # xs)
      = (if i < 3 then applySoftKneeCurve x c k
         else if M > c then applySoftKneeCurve (x * (c / M)) c k
         else applySoftKneeCurve x c k)
        # softKneeLoop c k (p1, p2, p3, x) (Suc i) xs"
    by (simp only: softKneeLoop.simps prod.case Let_def M_def)
  consider (start) "i < 3" | (scaled) "\<not> i < 3" "M > c" | (plain) "\<not> i < 3" "\<not> M > c"
    by blast
  then show ?thesis
  proof cases
    case start
    show ?thesis unfolding e if_P[OF start] by blast
  next
    case scaled
    show ?thesis unfolding e if_not_P[OF scaled(1)] if_P[OF scaled(2)] by blast
  next
    case plain
    show ?thesis unfolding e if_not_P[OF plain(1)] if_not_P[OF plain(2)] by blast
  qed
qed

lemma softKneeLoop_bound:
  assumes "0 < c" "0 \<le> k"
  shows "list_all (\<lambda>y. \<bar>y\<bar> \<le> c) (softKneeLoop c k h i xs)"
proof (induction xs arbitrary: h i)
  case Nil
  show ?case by (simp only: softKneeLoop.simps list.pred_inject)
next
  case (Cons x xs)
  obtain p0 p1 p2 p3 where h: "h = (p0, p1, p2, p3)" by (cases h) blast
  obtain z where z: "softKneeLoop c k (p0, p1, p2, p3) i (x # xs)
        = applySoftKneeCurve z c k # softKneeLoop c k (p1, p2, p3, x) (Suc i) xs"
    using softKneeLoop_Cons by blast
  have "\<bar>applySoftKneeCurve z c k\<bar> \<le> c" by (rule applySoftKneeCurve_bound[OF assms])
  moreover have "list_all (\<lambda>y. \<bar>y\<bar> \<le> c) (softKneeLoop c k (p1, p2, p3, x) (Suc i) xs)"
    by (rule Cons.IH)
  ultimately show ?case unfolding h z list.pred_inject by (rule conjI)
qed

lemma limiter_samples_bounded:
  assumes "0 \<le> k" and "applyLookaheadLimiter b c la rel k pt = Some out"
  shows "list_all (list_all (\<lambda>y. \<bar>y\<bar> \<le> c)) (channels out)"
proof -
  have c: "0 < c" using assms(2) by (auto simp: applyLookaheadLimiter_def split: if_splits)
  have "channels out = map (\<lambda>input.
          applySoftKneeOversampled (map2 (\<lambda>x g. x * g) input (limiterGainEnvelope b c la rel pt)) c k)
        (channels b)"
    using assms(2) by (auto simp: applyLookaheadLimiter_def Let_def split: if_splits)
  then show ?thesis
    using softKneeLoop_bound[OF c assms(1)]
    by (simp add: list_all_iff applySoftKneeOversampled_def)
qed

section \<open>Loudness of one block at 44.1 kHz\<close>

lemma hopSizeOf_44100: "hopSizeOf 44100 = 4410"
  by (simp add: hopSizeOf_def BLOCK_SIZE_SEC_def BLOCK_OVERLAP_def)

text \<open>
  At 44.1 kHz a buffer of 17640 or 17641 samples holds one block.
\<close>

lemma blocksLoop_one_block:
  assumes "len = 17640 \<or> len = 17641"
  shows "blocksLoop f 17640 4410 len 0 [] = Some [blockMeanSquare f 17640 0]"
proof -
  have "blocksLoop f 17640 4410 len 4410 [blockMeanSquare f 17640 0]
        = Some [blockMeanSquare f 17640 0]"
    using assms by (subst blocksLoop.simps) auto
  then show ?thesis
    using assms by (subst blocksLoop.simps) auto
qed

lemma measureLUFS_one_block:
  assumes "sampleRate b = 44100" and "buf_length b = 17640 \<or> buf_length b = 17641"
  shows "measureLUFS b fb =
     Some (gating [blockMeanSquare
       (kWeighted (calcHighShelfCoeffs 44100 HIGH_SHELF_FREQ HIGH_SHELF_GAIN HIGH_SHELF_Q)
          (calcHighPassCoeffs 44100 HIGH_PASS_FREQ HIGH_PASS_Q) (channels b)) 17640 0])"
proof -
  have "duration b = Some (real (buf_length b) / 44100)"
    by (simp add: duration_def assms(1))
  moreover have "\<not> real (buf_length b) / 44100 < BLOCK_SIZE_SEC"
    using assms(2) by (elim disjE) (simp_all add: BLOCK_SIZE_SEC_def)
  ultimately have ns: "\<not> (case duration b of None \<Rightarrow> False | Some d \<Rightarrow> d < BLOCK_SIZE_SEC)"
    by simp
  show ?thesis
    unfolding measureLUFS_long[OF ns] assms(1) blockSizeOf_44100 hopSizeOf_44100
      blocksLoop_one_block[OF assms(2)]
    by simp
qed

lemma kWeighted_Some:
  assumes "kWeighted hs hp chans = Some fch"
  shows "\<exists>s p. hs = Some s \<and> hp = Some p
           \<and> fch = map (\<lambda>ch. applyBiquadFilter (applyBiquadFilter ch s) p) chans"
proof (cases hs)
  case None
  then show ?thesis using assms by (simp add: kWeighted_def)
next
  case s: (Some s)
  show ?thesis
  proof (cases hp)
    case None
    then show ?thesis using assms s by (simp add: kWeighted_def)
  next
    case (Some p)
    then show ?thesis using assms s by (simp add: kWeighted_def)
  qed
qed

lemma kWeighted_leading_zeros:
  assumes "kWeighted hs hp chans = Some fch"
    and "\<forall>ch\<in>set chans. \<exists>ys. ch = replicate n 0 @ ys"
  shows "\<forall>ch\<in>set fch. \<forall>i<n. ch ! i = 0"
proof -
  from kWeighted_Some[OF assms(1)] obtain s p where
    fch: "fch = map (\<lambda>ch. applyBiquadFilter (applyBiquadFilter ch s) p) chans"
    by (elim exE conjE)
  have "applyBiquadFilter (applyBiquadFilter ch s) p ! i = 0"
    if "ch \<in> set chans" "i < n" for ch i
  proof -
    have "\<exists>ys. ch = replicate n 0 @ ys" using assms(2) that(1) by (rule bspec)
    then obtain ys where ys: "ch = replicate n 0 @ ys" by (elim exE)
    have "applyBiquadFilter (applyBiquadFilter ch s) p
        = replicate n 0 @ applyBiquadFilter (applyBiquadFilter ys s) p"
      unfolding ys by (simp only: applyBiquadFilter_leading_zeros)
    then show ?thesis using that(2) by (simp add: nth_append)
  qed
  then show ?thesis unfolding fch by simp
qed

lemma measureLUFS_quietTail: "measureLUFS quietTail fb = Some NegInfinity"
proof -
  let ?f = "kWeighted (calcHighShelfCoeffs 44100 HIGH_SHELF_FREQ HIGH_SHELF_GAIN HIGH_SHELF_Q)
          (calcHighPassCoeffs 44100 HIGH_PASS_FREQ HIGH_PASS_Q) (channels quietTail)"
  have "blockMeanSquare ?f 17640 0 = None \<or> blockMeanSquare ?f 17640 0 = Some 0"
  proof (cases ?f)
    case None
    then show ?thesis by (simp add: blockMeanSquare_def)
  next
    case (Some fch)
    have "\<forall>ch\<in>set (channels quietTail). \<exists>ys. ch = replicate 17640 0 @ ys"
      by (simp add: quietTail_def)
    then have "\<forall>ch\<in>set fch. \<forall>i<17640. ch ! i = 0"
      by (rule kWeighted_leading_zeros[OF Some])
    then have "\<forall>ch\<in>set fch. \<forall>i. 0 \<le> i \<longrightarrow> i < 0 + 17640 \<longrightarrow> i < length ch \<longrightarrow> ch ! i = 0"
      by simp
    then show ?thesis unfolding Some by (rule blockMeanSquare_silent)
  qed
  then have "gating [blockMeanSquare ?f 17640 0] = NegInfinity"
    by (intro gating_silent) simp
  moreover have "measureLUFS quietTail fb = Some (gating [blockMeanSquare ?f 17640 0])"
    by (rule measureLUFS_one_block) (simp_all add: quietTail_def)
  ultimately show ?thesis by (simp only:)
qed

text \<open>
  The K-weighting coefficients at 44.1 kHz.
\<close>

lemma shelf_gain_bounds: "1 \<le> (10::real) powr (HIGH_SHELF_GAIN / 40)"
  "(10::real) powr (HIGH_SHELF_GAIN / 40) \<le> 2"
proof -
  show "1 \<le> (10::real) powr (HIGH_SHELF_GAIN / 40)"
    by (rule ge_one_powr_ge_zero) (simp_all add: HIGH_SHELF_GAIN_def)
  have "(10::real) powr (1 / 10) \<le> 1024 powr (1 / 10)"
    by (rule powr_mono2) simp_all
  also have "(1024::real) = 2 powr 10" by simp
  also have "((2::real) powr 10) powr (1 / 10) = 2"
    by (simp only: powr_powr) simp
  finally show "(10::real) powr (HIGH_SHELF_GAIN / 40) \<le> 2"
    by (simp add: HIGH_SHELF_GAIN_def)
qed

lemma angle_bounds:
  assumes "0 \<le> f" "4 * f \<le> sr" "0 < sr"
  shows "0 \<le> cos (2 * pi * f / sr)" "0 \<le> sin (2 * pi * f / sr)"
proof -
  have a: "0 \<le> 2 * pi * f / sr" using assms by simp
  have "2 * f / sr \<le> 1 / 2" using assms by (simp add: field_simps)
  then have "pi * (2 * f / sr) \<le> pi * (1 / 2)"
    by (intro mult_left_mono) simp_all
  then have b: "2 * pi * f / sr \<le> pi / 2" by (simp add: mult_ac)
  show "0 \<le> cos (2 * pi * f / sr)"
    using a b by (intro cos_ge_zero) linarith+
  have "pi / 2 \<le> pi" by simp
  then show "0 \<le> sin (2 * pi * f / sr)"
    using a b by (intro sin_ge_zero) linarith+
qed

lemma highShelf_44100:
  "\<exists>hs. calcHighShelfCoeffs 44100 HIGH_SHELF_FREQ HIGH_SHELF_GAIN HIGH_SHELF_Q = Some hs
        \<and> 1 / 3 \<le> b0 hs"
proof -
  define A :: real where "A = 10 powr (HIGH_SHELF_GAIN / 40)"
  define c where "c = cos (2 * pi * HIGH_SHELF_FREQ / 44100)"
  define s where "s = sin (2 * pi * HIGH_SHELF_FREQ / 44100)"
  define r where "r = 2 * sqrt A * (s / (2 * HIGH_SHELF_Q))"
  have A: "1 \<le> A" "A \<le> 2" unfolding A_def by (rule shelf_gain_bounds)+
  have c: "0 \<le> c" "c \<le> 1" and s: "0 \<le> s" "s \<le> 1"
    unfolding c_def s_def
    using angle_bounds[of HIGH_SHELF_FREQ 44100] by (simp_all add: HIGH_SHELF_FREQ_def)
  have "sqrt A \<le> sqrt 4" using A by (intro real_sqrt_le_mono) simp
  then have q: "0 \<le> sqrt A" "sqrt A \<le> 2" using A by simp_all
  have "sqrt A * s \<le> 2 * 1"
    using q s by (intro mult_mono) simp_all
  then have r: "0 \<le> r" "r \<le> 3"
    using q s by (simp_all add: r_def HIGH_SHELF_Q_def field_simps)
  define p where "p = (A - 1) * c"
  define D where "D = (A + 1) - p + r"
  define N where "N = A * ((A + 1) + p + r)"
  have "(A - 1) * c \<le> (A - 1) * 1"
    using A c by (intro mult_left_mono) simp_all
  then have p: "0 \<le> p" "p \<le> A - 1" using A c by (simp_all add: p_def)
  have D: "2 \<le> D" "D \<le> 6"
    unfolding D_def using A r p by linarith+
  have N1: "2 \<le> (A + 1) + p + r"
    using A r p by linarith
  have "1 * 2 \<le> A * ((A + 1) + p + r)"
    using A(1) N1 by (intro mult_mono) simp_all
  then have N: "2 \<le> N" by (simp add: N_def)
  have "1 / 3 \<le> 2 / D"
    using D by (simp add: field_simps)
  also have "\<dots> \<le> N / D"
    using N D by (intro divide_right_mono) simp_all
  finally have b: "1 / 3 \<le> N / D" .
  have nz: "D \<noteq> 0" using D by simp
  have "calcHighShelfCoeffs 44100 HIGH_SHELF_FREQ HIGH_SHELF_GAIN HIGH_SHELF_Q
      = (if D = 0 then None
         else Some \<lparr>b0 = N / D, b1 = - 2 * A * ((A - 1) + (A + 1) * c) / D,
                     b2 = A * ((A + 1) + p - r) / D,
                     a1 = 2 * ((A - 1) - (A + 1) * c) / D, a2 = ((A + 1) - p - r) / D\<rparr>)"
    unfolding calcHighShelfCoeffs_def Let_def N_def D_def p_def r_def A_def c_def s_def
    by (simp add: HIGH_SHELF_Q_def)
  then show ?thesis using nz b by simp
qed

lemma highPass_44100:
  "\<exists>hp. calcHighPassCoeffs 44100 HIGH_PASS_FREQ HIGH_PASS_Q = Some hp \<and> 1 / 4 \<le> b0 hp"
proof -
  define c where "c = cos (2 * pi * HIGH_PASS_FREQ / 44100)"
  define s where "s = sin (2 * pi * HIGH_PASS_FREQ / 44100)"
  define D where "D = 1 + s / (2 * HIGH_PASS_Q)"
  define N where "N = (1 + c) / 2"
  have c: "0 \<le> c" "c \<le> 1" and s: "0 \<le> s" "s \<le> 1"
    unfolding c_def s_def
    using angle_bounds[of HIGH_PASS_FREQ 44100] by (simp_all add: HIGH_PASS_FREQ_def)
  have D: "1 \<le> D" "D \<le> 2" using s by (simp_all add: D_def HIGH_PASS_Q_def)
  have N: "1 / 2 \<le> N" using c by (simp add: N_def)
  have "1 / 4 \<le> (1 / 2) / D"
    using D by (simp add: field_simps)
  also have "\<dots> \<le> N / D"
    using N D by (intro divide_right_mono) simp_all
  finally have b: "1 / 4 \<le> N / D" .
  have nz: "D \<noteq> 0" using D by simp
  have "calcHighPassCoeffs 44100 HIGH_PASS_FREQ HIGH_PASS_Q
      = (if D = 0 then None
         else Some \<lparr>b0 = N / D, b1 = - (1 + c) / D, b2 = N / D,
                     a1 = - 2 * c / D, a2 = (1 - s / (2 * HIGH_PASS_Q)) / D\<rparr>)"
    unfolding calcHighPassCoeffs_def Let_def N_def D_def c_def s_def
    by (simp add: HIGH_PASS_Q_def)
  then show ?thesis using nz b by simp
qed

text \<open>
  The click: the first K-weighted sample is the product of the two \<open>b0\<close>, and the one
  block of the buffer holds its square.
\<close>

lemma applyBiquadFilter_Cons:
  "\<exists>ys. applyBiquadFilter (x # xs) c = (b0 c * x) # ys"
  by (simp add: applyBiquadFilter_def Let_def)

lemma foldl_squares_ge:
  "s0 \<le> foldl (\<lambda>s i. s + ch ! i * ch ! i) (s0::real) is"
proof (induction "is" arbitrary: s0)
  case Nil
  show ?case by simp
next
  case (Cons i "is")
  have "s0 \<le> s0 + ch ! i * ch ! i" by simp
  also have "\<dots> \<le> foldl (\<lambda>s i. s + ch ! i * ch ! i) (s0 + ch ! i * ch ! i) is"
    by (rule Cons.IH)
  finally show ?case by simp
qed

lemma blockMeanSquare_first:
  assumes "length f = n" "0 < n"
  shows "\<exists>v. blockMeanSquare (Some [f]) n 0 = Some v \<and> f ! 0 * f ! 0 / real n \<le> v"
proof -
  have "[0 ..< n] = 0 # [1 ..< n]"
    using assms(2) by (simp add: upt_conv_Cons)
  then have "foldl (\<lambda>s i. s + f ! i * f ! i) 0 [0 ..< n]
      = foldl (\<lambda>s i. s + f ! i * f ! i) (f ! 0 * f ! 0) [1 ..< n]"
    by simp
  then have "f ! 0 * f ! 0 \<le> foldl (\<lambda>s i. s + f ! i * f ! i) 0 [0 ..< n]"
    by (simp only: foldl_squares_ge)
  then have "f ! 0 * f ! 0 / real n \<le> foldl (\<lambda>s i. s + f ! i * f ! i) 0 [0 ..< n] / real n"
    by (rule divide_right_mono) simp
  then show ?thesis using assms by (simp add: blockMeanSquare_def)
qed

lemma gating_one:
  assumes "ABSOLUTE_GATE_LINEAR < v"
  shows "gating [Some v] = Num (LOUDNESS_OFFSET + 10 * log 10 v)"
proof -
  have v: "0 < v" using assms gate_pos by linarith
  have a: "aboveGate ABSOLUTE_GATE_LINEAR [Some v] = [v]"
    using assms by (simp add: aboveGate_def)
  have m: "mean [v] = v" by (simp add: mean_def)
  have "v * RELATIVE_GATE_OFFSET < v"
    using v by (simp add: RELATIVE_GATE_OFFSET_def)
  then have f: "filter (\<lambda>ms. ms > mean [v] * RELATIVE_GATE_OFFSET) [v] = [v]"
    by (simp add: m)
  show ?thesis
    unfolding gating_def Let_def a f by (simp add: m)
qed

lemma loudness_above_gate:
  assumes "ABSOLUTE_GATE_LINEAR < v"
  shows "- 71 < LOUDNESS_OFFSET + 10 * log 10 v"
proof -
  have "(1 / 10000000 :: real) = 10 powr (- 7)"
    by (simp add: powr_minus_divide)
  then have "log 10 ABSOLUTE_GATE_LINEAR = - 7"
    by (simp only: ABSOLUTE_GATE_LINEAR_def) simp
  moreover have "log 10 ABSOLUTE_GATE_LINEAR < log 10 v"
    using assms gate_pos by (simp add: log_less_cancel_iff)
  ultimately have "- 7 < log 10 v" by simp
  then show ?thesis by (simp add: LOUDNESS_OFFSET_def)
qed

lemma measureLUFS_click:
  "\<exists>cur. measureLUFS click fb = Some (Num cur) \<and> - 71 < cur"
proof -
  obtain hs where hs: "calcHighShelfCoeffs 44100 HIGH_SHELF_FREQ HIGH_SHELF_GAIN HIGH_SHELF_Q = Some hs"
    and bs: "1 / 3 \<le> b0 hs"
    using highShelf_44100 by (elim exE conjE)
  obtain hp where hp: "calcHighPassCoeffs 44100 HIGH_PASS_FREQ HIGH_PASS_Q = Some hp"
    and bp: "1 / 4 \<le> b0 hp"
    using highPass_44100 by (elim exE conjE)
  define f where "f = applyBiquadFilter (applyBiquadFilter (1 # replicate 17639 0) hs) hp"
  have k: "kWeighted (Some hs) (Some hp) (channels click) = Some [f]"
    by (simp add: kWeighted_def click_def f_def)
  have len: "length f = 17640"
    by (simp add: f_def length_applyBiquadFilter)
  obtain ys where "applyBiquadFilter (1 # replicate 17639 0) hs = (b0 hs * 1) # ys"
    using applyBiquadFilter_Cons[of 1 "replicate 17639 0" hs] by (elim exE)
  then have "\<exists>zs. f = (b0 hp * (b0 hs * 1)) # zs"
    unfolding f_def by (simp only: applyBiquadFilter_Cons)
  then have f0: "f ! 0 = b0 hp * b0 hs" by auto
  have "1 / 4 * (1 / 3) \<le> b0 hp * b0 hs"
    using bs bp by (intro mult_mono) simp_all
  then have y: "1 / 12 \<le> b0 hp * b0 hs" by simp
  then have "1 / 12 * (1 / 12) \<le> (b0 hp * b0 hs) * (b0 hp * b0 hs)"
    by (intro mult_mono) simp_all
  then have sq: "1 / 144 \<le> f ! 0 * f ! 0" by (simp add: f0)
  obtain v where v: "blockMeanSquare (Some [f]) 17640 0 = Some v"
    and vb: "f ! 0 * f ! 0 / real 17640 \<le> v"
    using blockMeanSquare_first[OF len] by auto
  have "1 / 144 / real 17640 \<le> f ! 0 * f ! 0 / real 17640"
    using sq by (rule divide_right_mono) simp
  then have "1 / 144 / 17640 \<le> v" using vb by simp
  then have g: "ABSOLUTE_GATE_LINEAR < v"
    by (simp add: ABSOLUTE_GATE_LINEAR_def)
  have "measureLUFS click fb = Some (gating [blockMeanSquare
       (kWeighted (calcHighShelfCoeffs 44100 HIGH_SHELF_FREQ HIGH_SHELF_GAIN HIGH_SHELF_Q)
          (calcHighPassCoeffs 44100 HIGH_PASS_FREQ HIGH_PASS_Q) (channels click)) 17640 0])"
    by (rule measureLUFS_one_block) (simp_all add: click_def)
  then have "measureLUFS click fb = Some (Num (LOUDNESS_OFFSET + 10 * log 10 v))"
    by (simp only: hs hp k v gating_one[OF g])
  then show ?thesis using loudness_above_gate[OF g] by simp
qed

section \<open>Normalizer\<close>

lemma length_writeMapped: "length (writeMapped n f xs) = n"
  by (simp add: writeMapped_def)

lemma wf_applyGain: "wf_buffer (applyGain b g)"
  by (simp add: applyGain_def wf_buffer_def newAudioBuffer_def Let_def list_all_iff length_writeMapped)

lemma applyGain_shape:
  "sampleRate (applyGain b g) = sampleRate b" "buf_length (applyGain b g) = buf_length b"
  "length (channels (applyGain b g)) = length (channels b)"
  by (simp_all add: applyGain_def newAudioBuffer_def Let_def)

lemma limiter_returns:
  assumes "wf_buffer b" "0 < sampleRate b" "0 < c" "channels b \<noteq> []"
  shows "\<exists>lim. applyLookaheadLimiter b c la rel k pt = Some lim \<and> sampleRate lim = sampleRate b"
  using assms unfolding applyLookaheadLimiter_def Let_def
  by (simp add: numberOfChannels_def newAudioBuffer_def)

lemma normalizeToLUFS_unfold:
  "normalizeToLUFS b t c skip =
     Option.bind (measureLUFS b t) (\<lambda>currentLUFS.
       case currentLUFS of
         NegInfinity \<Rightarrow> Some b
       | Num current \<Rightarrow>
           if skip then Some (applyGain b (t - current))
           else if js_gt (js_add (findTruePeak b) (t - current)) c then
             Option.bind
               (applyLookaheadLimiter (applyGain b (t - current)) (10 powr (c / 20)) 3 100
                  KNEE_DB PRESERVE_TRANSIENTS)
               (\<lambda>limitedBuffer.
                  Option.bind (measureLUFS limitedBuffer (- 14)) (\<lambda>finalLUFS. Some limitedBuffer))
           else Some (applyGain b (t - current)))"
  unfolding normalizeToLUFS_def applyGain_def Let_def ..

lemma channels_applyGain:
  assumes "wf_buffer b"
  shows "channels (applyGain b g) = map (map (\<lambda>x. x * 10 powr (g / 20))) (channels b)"
proof -
  have "writeMapped (buf_length b) f ch = map f ch" if "ch \<in> set (channels b)" for ch and f :: "real \<Rightarrow> real"
    using assms that by (simp add: writeMapped_def wf_buffer_def list_all_iff)
  then show ?thesis
    by (simp add: applyGain_def newAudioBuffer_def Let_def)
qed

lemma findTruePeak_no_channels: "channels b = [] \<Longrightarrow> findTruePeak b = NegInfinity"
  by (simp add: findTruePeak_def)

text \<open>
  The limiter branch returns: the limiter does, and so does the measurement of the
  limited buffer for the log line.
\<close>

lemma normalize_limited:
  assumes sr: "10 \<le> sampleRate b"
    and m: "measureLUFS b t = Some (Num cur)"
    and over: "js_gt (js_add (findTruePeak b) (t - cur)) c"
  shows "\<exists>lim. applyLookaheadLimiter (applyGain b (t - cur)) (10 powr (c / 20)) 3 100
                  KNEE_DB PRESERVE_TRANSIENTS = Some lim
               \<and> normalizeToLUFS b t c False = Some lim"
proof -
  have ne: "channels b \<noteq> []"
    using over findTruePeak_no_channels[of b] by auto
  let ?g = "applyGain b (t - cur)"
  have "channels ?g \<noteq> []" using ne applyGain_shape(3)[of b "t - cur"] by auto
  moreover have "0 < sampleRate ?g" using sr by (simp add: applyGain_shape)
  moreover have "(0::real) < 10 powr (c / 20)" by simp
  ultimately have "\<exists>lim. applyLookaheadLimiter ?g (10 powr (c / 20)) 3 100 KNEE_DB
      PRESERVE_TRANSIENTS = Some lim \<and> sampleRate lim = sampleRate ?g"
    by (intro limiter_returns wf_applyGain)
  then obtain lim where
    lim: "applyLookaheadLimiter ?g (10 powr (c / 20)) 3 100 KNEE_DB PRESERVE_TRANSIENTS = Some lim"
    and eq: "sampleRate lim = sampleRate ?g"
    by (elim exE conjE)
  have "10 \<le> sampleRate lim" using sr eq by (simp add: applyGain_shape)
  then have "\<exists>r. measureLUFS lim (- 14) = Some r"
    by (rule measureLUFS_returns)
  then obtain r where "measureLUFS lim (- 14) = Some r" by (elim exE)
  then have "normalizeToLUFS b t c False = Some lim"
    using m over lim by (simp add: normalizeToLUFS_unfold)
  then show ?thesis using lim by simp
qed

text \<open>
  C8, as the code has it.  For a buffer with \<^verbatim>\<open>length\<close> samples in every channel at a
  sample rate of at least 10 Hz, the loudness measurement returns.  Where the measured
  loudness is \<^verbatim>\<open>-Infinity\<close> the input buffer itself is returned, with no gain and no
  limiting.  Where it is a number \<open>cur\<close>, the gain is \<open>t - cur\<close> dB and the gained buffer
  holds every sample of every channel multiplied by \<open>10 powr ((t - cur) / 20)\<close>; with
  \<open>skipLimiter\<close> the gained buffer is returned; without it the gained buffer is returned
  where the projected peak (measured true peak plus gain) is not above the ceiling, and
  the output of the lookahead limiter on the gained buffer (ceiling
  \<open>10 powr (c / 20)\<close>, 3 ms, 100 ms, default knee and transient preservation) where it
  is; the limiter and the measurement for the log line both return.
\<close>

theorem normalizeToLUFS_cases:
  assumes "wf_buffer b" and "10 \<le> sampleRate b"
  shows "\<exists>m. measureLUFS b t = Some m
    \<and> (m = NegInfinity \<longrightarrow> normalizeToLUFS b t c skip = Some b)
    \<and> (\<forall>cur. m = Num cur \<longrightarrow>
         channels (applyGain b (t - cur))
           = map (map (\<lambda>x. x * 10 powr ((t - cur) / 20))) (channels b)
       \<and> (skip \<longrightarrow> normalizeToLUFS b t c skip = Some (applyGain b (t - cur)))
       \<and> (\<not> skip \<and> \<not> js_gt (js_add (findTruePeak b) (t - cur)) c
            \<longrightarrow> normalizeToLUFS b t c skip = Some (applyGain b (t - cur)))
       \<and> (\<not> skip \<and> js_gt (js_add (findTruePeak b) (t - cur)) c
            \<longrightarrow> (\<exists>lim. applyLookaheadLimiter (applyGain b (t - cur)) (10 powr (c / 20)) 3 100
                            KNEE_DB PRESERVE_TRANSIENTS = Some lim
                        \<and> normalizeToLUFS b t c skip = Some lim)))"
proof -
  from measureLUFS_returns[OF assms(2), of t] obtain m where m: "measureLUFS b t = Some m"
    by (elim exE)
  have 1: "normalizeToLUFS b t c skip = Some b" if "m = NegInfinity"
    using m that by (simp add: normalizeToLUFS_unfold)
  have 2: "channels (applyGain b (t - cur))
           = map (map (\<lambda>x. x * 10 powr ((t - cur) / 20))) (channels b)" for cur
    by (rule channels_applyGain[OF assms(1)])
  have 3: "normalizeToLUFS b t c skip = Some (applyGain b (t - cur))"
    if "m = Num cur" skip for cur
    using m that by (simp add: normalizeToLUFS_unfold)
  have 4: "normalizeToLUFS b t c skip = Some (applyGain b (t - cur))"
    if "m = Num cur" "\<not> skip \<and> \<not> js_gt (js_add (findTruePeak b) (t - cur)) c" for cur
    using m that by (simp add: normalizeToLUFS_unfold)
  have 5: "\<exists>lim. applyLookaheadLimiter (applyGain b (t - cur)) (10 powr (c / 20)) 3 100
                            KNEE_DB PRESERVE_TRANSIENTS = Some lim
                        \<and> normalizeToLUFS b t c skip = Some lim"
    if c: "m = Num cur" and o: "\<not> skip \<and> js_gt (js_add (findTruePeak b) (t - cur)) c" for cur
  proof -
    have s: "skip = False" and o': "js_gt (js_add (findTruePeak b) (t - cur)) c"
      using o by simp_all
    have m': "measureLUFS b t = Some (Num cur)" using m c by simp
    show ?thesis unfolding s by (rule normalize_limited[OF assms(2) m' o'])
  qed
  show ?thesis
  proof (intro exI[of _ m] conjI impI allI)
    show "measureLUFS b t = Some m" by (rule m)
  next
    assume "m = NegInfinity"
    then show "normalizeToLUFS b t c skip = Some b" by (rule 1)
  next
    fix cur
    show "channels (applyGain b (t - cur))
           = map (map (\<lambda>x. x * 10 powr ((t - cur) / 20))) (channels b)"
      by (rule 2)
  next
    fix cur assume "m = Num cur" and skip
    then show "normalizeToLUFS b t c skip = Some (applyGain b (t - cur))" by (rule 3)
  next
    fix cur assume "m = Num cur"
      and "\<not> skip \<and> \<not> js_gt (js_add (findTruePeak b) (t - cur)) c"
    then show "normalizeToLUFS b t c skip = Some (applyGain b (t - cur))" by (rule 4)
  next
    fix cur assume "m = Num cur"
      and "\<not> skip \<and> js_gt (js_add (findTruePeak b) (t - cur)) c"
    then show "\<exists>lim. applyLookaheadLimiter (applyGain b (t - cur)) (10 powr (c / 20)) 3 100
                            KNEE_DB PRESERVE_TRANSIENTS = Some lim
                        \<and> normalizeToLUFS b t c skip = Some lim"
      by (rule 5)
  qed
qed

text \<open>
  The true peak of the click and of the flat top.
\<close>

lemma calculateTruePeakSample_zero: "calculateTruePeakSample (0, 0, 0, 0) = 0"
  by (simp add: calculateTruePeakSample_def Let_def max_def abs_if)

lemma truePeakLoop_zeros:
  "0 \<le> m \<Longrightarrow> truePeakLoop (p0, 0, 0, 0) i m (replicate n 0) = m"
proof (induction n arbitrary: p0 i)
  case 0
  show ?case by simp
next
  case (Suc n)
  have k: "(if 3 \<le> i
            then if m < calculateTruePeakSample (0, 0, 0, 0)
                 then calculateTruePeakSample (0, 0, 0, 0) else m
            else m) = m"
    using Suc.prems by (simp add: calculateTruePeakSample_zero)
  have "truePeakLoop (p0, 0, 0, 0) i m (replicate (Suc n) 0)
      = truePeakLoop (0, 0, 0, 0) (Suc i) m (replicate n 0)"
    by (simp only: replicate_Suc truePeakLoop.simps prod.case Let_def k)
  then show ?case by (simp only: Suc.IH[OF Suc.prems])
qed

lemma calculateTruePeakSample_click: "calculateTruePeakSample (1, 0, 0, 0) = 9 / 128"
  by (simp add: calculateTruePeakSample_def Let_def max_def abs_if)

lemma findTruePeak_click: "findTruePeak click = Num (20 * log 10 (9 / 128))"
proof -
  have "(17639::nat) = 3 + 17636" by simp
  then have "replicate 17639 (0::real) = replicate 3 0 @ replicate 17636 0"
    by (simp only: replicate_add)
  then have r: "replicate 17639 (0::real) = 0 # 0 # 0 # replicate 17636 0"
    by (simp add: numeral_3_eq_3)
  have t: "truePeakLoop (0, 0, 0, 0) 0 0 (1 # replicate 17639 0) = 9 / 128"
    unfolding r by (simp add: Let_def calculateTruePeakSample_click truePeakLoop_zeros)
  show ?thesis
    unfolding findTruePeak_def click_def
    by (simp only: AudioBuffer.simps foldl_Cons foldl_Nil t Let_def) simp
qed

lemma calculateTruePeakSample_flatTop:
  "calculateTruePeakSample (- (9 / 10), 9 / 10, 9 / 10, - (9 / 10)) = 9 / 8"
  by (simp add: calculateTruePeakSample_def Let_def max_def abs_if)

lemma findTruePeak_flatTop: "findTruePeak flatTop = Num (20 * log 10 (9 / 8))"
  by (simp add: findTruePeak_def flatTop_def calculateTruePeakSample_flatTop Let_def)

lemma log_click_bounds: "log 10 (9 / 128) \<le> 0" "- 2 < log 10 (9 / 128)"
proof -
  show "log 10 (9 / 128) \<le> 0" by simp
  have "(1 / 100 :: real) = 10 powr (- 2)"
    by (simp add: powr_minus_divide)
  then have "log 10 (1 / 100) = - 2"
    by (simp only:) simp
  moreover have "log 10 (1 / 100) < log 10 (9 / 128)"
    by (subst log_less_cancel_iff) simp_all
  ultimately show "- 2 < log 10 (9 / 128)" by simp
qed

text \<open>
  The theorem at the click with a target of \<open>-80\<close> LUFS: the loudness is the one that
  the block loop computes, the gain is negative, and the gained buffer is returned with
  \<open>skipLimiter\<close> and, without it, under the ceiling of \<open>-1\<close> dB, while a ceiling 40 dB
  below the gain brings in the limiter.  At the flat top, which is too short to be
  measured (the gain is 0 dB), the projected peak of about \<open>+1\<close> dB is above the ceiling
  of \<open>-1\<close> dB and the limiter is applied.
\<close>

theorem normalizeToLUFS_cases_witness:
  "wf_buffer click \<and> 10 \<le> sampleRate click
   \<and> (\<exists>cur lim. measureLUFS click (- 80) = Some (Num cur) \<and> - 80 - cur < 0
         \<and> channels (applyGain click (- 80 - cur))
             = map (map (\<lambda>x. x * 10 powr ((- 80 - cur) / 20))) (channels click)
         \<and> normalizeToLUFS click (- 80) (- 1) True = Some (applyGain click (- 80 - cur))
         \<and> normalizeToLUFS click (- 80) (- 1) False = Some (applyGain click (- 80 - cur))
         \<and> applyLookaheadLimiter (applyGain click (- 80 - cur))
              (10 powr ((- 120 - cur) / 20)) 3 100 KNEE_DB PRESERVE_TRANSIENTS = Some lim
         \<and> normalizeToLUFS click (- 80) (- 120 - cur) False = Some lim)
   \<and> wf_buffer flatTop \<and> 10 \<le> sampleRate flatTop
   \<and> measureLUFS flatTop (- 14) = Some (Num (- 14))
   \<and> (\<exists>lim. applyLookaheadLimiter (applyGain flatTop 0) (10 powr (- 1 / 20)) 3 100
                KNEE_DB PRESERVE_TRANSIENTS = Some lim
            \<and> normalizeToLUFS flatTop (- 14) (- 1) False = Some lim)"
proof -
  have cases:
    "channels (applyGain b (t - x)) = map (map (\<lambda>y. y * 10 powr ((t - x) / 20))) (channels b)
     \<and> (skip \<longrightarrow> normalizeToLUFS b t c skip = Some (applyGain b (t - x)))
     \<and> (\<not> skip \<and> \<not> js_gt (js_add (findTruePeak b) (t - x)) c
          \<longrightarrow> normalizeToLUFS b t c skip = Some (applyGain b (t - x)))
     \<and> (\<not> skip \<and> js_gt (js_add (findTruePeak b) (t - x)) c
          \<longrightarrow> (\<exists>lim. applyLookaheadLimiter (applyGain b (t - x)) (10 powr (c / 20)) 3 100
                          KNEE_DB PRESERVE_TRANSIENTS = Some lim
                      \<and> normalizeToLUFS b t c skip = Some lim))"
    if "wf_buffer b" "10 \<le> sampleRate b" "measureLUFS b t = Some (Num x)"
    for b t c skip x
  proof -
    from normalizeToLUFS_cases [OF that(1,2), of t c skip] obtain m where
      a: "measureLUFS b t = Some m"
      and r: "\<forall>cur. m = Num cur \<longrightarrow>
         channels (applyGain b (t - cur))
           = map (map (\<lambda>x. x * 10 powr ((t - cur) / 20))) (channels b)
       \<and> (skip \<longrightarrow> normalizeToLUFS b t c skip = Some (applyGain b (t - cur)))
       \<and> (\<not> skip \<and> \<not> js_gt (js_add (findTruePeak b) (t - cur)) c
            \<longrightarrow> normalizeToLUFS b t c skip = Some (applyGain b (t - cur)))
       \<and> (\<not> skip \<and> js_gt (js_add (findTruePeak b) (t - cur)) c
            \<longrightarrow> (\<exists>lim. applyLookaheadLimiter (applyGain b (t - cur)) (10 powr (c / 20)) 3 100
                            KNEE_DB PRESERVE_TRANSIENTS = Some lim
                        \<and> normalizeToLUFS b t c skip = Some lim))"
      by (elim exE conjE)
    have "m = Num x" using a that(3) by simp
    then show ?thesis by (rule r[rule_format])
  qed
  have wc: "wf_buffer click" "10 \<le> sampleRate click"
    by (simp_all add: click_def wf_buffer_def)
  from measureLUFS_click[of "- 80"] obtain cur where
    m: "measureLUFS click (- 80) = Some (Num cur)" and lb: "- 71 < cur"
    by (elim exE conjE)
  have g: "- 80 - cur < 0" using lb by simp
  have ch: "channels (applyGain click (- 80 - cur))
             = map (map (\<lambda>x. x * 10 powr ((- 80 - cur) / 20))) (channels click)"
    using cases[OF wc m, of True 0] by (rule conjunct1)
  have s1: "normalizeToLUFS click (- 80) (- 1) True = Some (applyGain click (- 80 - cur))"
    using cases[OF wc m, of True "- 1"] by simp
  have "\<not> - 1 < 20 * log 10 (9 / 128) + (- 80 - cur)"
    using lb log_click_bounds(1) by linarith
  then have "\<not> js_gt (js_add (findTruePeak click) (- 80 - cur)) (- 1)"
    by (simp only: findTruePeak_click js_add.simps js_gt.simps not_False_eq_True)
  then have s2: "normalizeToLUFS click (- 80) (- 1) False = Some (applyGain click (- 80 - cur))"
    using cases[OF wc m, of False "- 1"] by simp
  have "- 120 - cur < 20 * log 10 (9 / 128) + (- 80 - cur)"
    using log_click_bounds(2) by linarith
  then have "js_gt (js_add (findTruePeak click) (- 80 - cur)) (- 120 - cur)"
    by (simp only: findTruePeak_click js_add.simps js_gt.simps)
  then have "\<exists>lim. applyLookaheadLimiter (applyGain click (- 80 - cur))
              (10 powr ((- 120 - cur) / 20)) 3 100 KNEE_DB PRESERVE_TRANSIENTS = Some lim
         \<and> normalizeToLUFS click (- 80) (- 120 - cur) False = Some lim"
    using cases[OF wc m, of False "- 120 - cur"] by simp
  then obtain lim where
    s3: "applyLookaheadLimiter (applyGain click (- 80 - cur))
              (10 powr ((- 120 - cur) / 20)) 3 100 KNEE_DB PRESERVE_TRANSIENTS = Some lim"
      "normalizeToLUFS click (- 80) (- 120 - cur) False = Some lim"
    by (elim exE conjE)
  have wf: "wf_buffer flatTop" "10 \<le> sampleRate flatTop"
    by (simp_all add: flatTop_def wf_buffer_def)
  have mf: "measureLUFS flatTop (- 14) = Some (Num (- 14))"
    by (simp add: measureLUFS_def duration_def flatTop_def BLOCK_SIZE_SEC_def)
  have "0 < log 10 (9 / 8 :: real)" by simp
  then have "- 1 < 20 * log 10 (9 / 8 :: real) + (- 14 - (- 14))" by linarith
  then have "js_gt (js_add (findTruePeak flatTop) (- 14 - (- 14))) (- 1)"
    by (simp only: findTruePeak_flatTop js_add.simps js_gt.simps)
  then have s4: "\<exists>lim. applyLookaheadLimiter (applyGain flatTop 0) (10 powr (- 1 / 20)) 3 100
                KNEE_DB PRESERVE_TRANSIENTS = Some lim
            \<and> normalizeToLUFS flatTop (- 14) (- 1) False = Some lim"
    using cases[OF wf mf, of False "- 1"] by simp
  have "\<exists>cur lim. measureLUFS click (- 80) = Some (Num cur) \<and> - 80 - cur < 0
         \<and> channels (applyGain click (- 80 - cur))
             = map (map (\<lambda>x. x * 10 powr ((- 80 - cur) / 20))) (channels click)
         \<and> normalizeToLUFS click (- 80) (- 1) True = Some (applyGain click (- 80 - cur))
         \<and> normalizeToLUFS click (- 80) (- 1) False = Some (applyGain click (- 80 - cur))
         \<and> applyLookaheadLimiter (applyGain click (- 80 - cur))
              (10 powr ((- 120 - cur) / 20)) 3 100 KNEE_DB PRESERVE_TRANSIENTS = Some lim
         \<and> normalizeToLUFS click (- 80) (- 120 - cur) False = Some lim"
    using m g ch s1 s2 s3 by (intro exI[of _ cur] exI[of _ lim] conjI)
  then show ?thesis using wc wf mf s4 by (intro conjI)
qed

text \<open>
  The claim as it was stated fails on one block of silence followed by one sample at
  half scale: the measured loudness is \<^verbatim>\<open>-Infinity\<close> (the only 400 ms block that fits
  is silent), so there is no finite gain \<open>target - measured\<close>, and the buffer is
  returned as it came, with and without \<open>skipLimiter\<close>.
\<close>

theorem normalizeToLUFS_counterexample:
  "measureLUFS quietTail (- 14) = Some NegInfinity
   \<and> normalizeToLUFS quietTail (- 14) (- 1) True = Some quietTail
   \<and> normalizeToLUFS quietTail (- 14) (- 1) False = Some quietTail"
  by (simp add: normalizeToLUFS_unfold measureLUFS_quietTail)

end
